theory Spec2Isabelle
  imports Complex_Main "HOL-Library.AList" "HOL-Library.Multiset"
begin

section \<open>Python text\<close>

text \<open>
  A Python string is a sequence of code points. The text that the program reads
  (cells, paths, lines of the ledger, descriptions) is modelled over the code points
  below 256, one \<^typ>\<open>char\<close> each, and \<open>codepoints\<close> gives its code points. Uppercasing
  can leave that range and can change the length of a string, so that the strings of
  the validators, which are uppercased first, are lists of code points.
\<close>

type_synonym codepoint = nat
type_synonym pystr = "codepoint list"

definition codepoints :: "string \<Rightarrow> pystr" where
  "codepoints s = map of_char s"

text \<open>
  The classes of a code point (\<^verbatim>\<open>str.isalpha\<close>, \<^verbatim>\<open>str.isdecimal\<close>, \<^verbatim>\<open>str.isdigit\<close>,
  \<^verbatim>\<open>str.isnumeric\<close>) and its uppercase mapping (one or more code points) are those of
  the Unicode database of the interpreter, a parameter of the validators.
  \<^verbatim>\<open>str.isalnum\<close> holds of a code point when one of the four classes does.
\<close>

record unicode_db =
  db_isalpha :: "codepoint \<Rightarrow> bool"
  db_isdecimal :: "codepoint \<Rightarrow> bool"
  db_isdigit :: "codepoint \<Rightarrow> bool"
  db_isnumeric :: "codepoint \<Rightarrow> bool"
  db_upper :: "codepoint \<Rightarrow> pystr"

definition db_isalnum :: "unicode_db \<Rightarrow> codepoint \<Rightarrow> bool" where
  "db_isalnum U c = (db_isalpha U c \<or> db_isdecimal U c \<or> db_isdigit U c \<or> db_isnumeric U c)"

text \<open>\<^verbatim>\<open>s.isalpha()\<close>, \<^verbatim>\<open>s.isdigit()\<close>, \<^verbatim>\<open>s.isalnum()\<close>: false on the empty string.\<close>

definition isalpha :: "unicode_db \<Rightarrow> pystr \<Rightarrow> bool" where
  "isalpha U s = (s \<noteq> [] \<and> list_all (db_isalpha U) s)"

definition isdigit :: "unicode_db \<Rightarrow> pystr \<Rightarrow> bool" where
  "isdigit U s = (s \<noteq> [] \<and> list_all (db_isdigit U) s)"

definition isalnum :: "unicode_db \<Rightarrow> pystr \<Rightarrow> bool" where
  "isalnum U s = (s \<noteq> [] \<and> list_all (db_isalnum U) s)"

text \<open>\<^verbatim>\<open>s.upper()\<close>: each code point is replaced by its uppercase mapping.\<close>

definition upper :: "unicode_db \<Rightarrow> pystr \<Rightarrow> pystr" where
  "upper U s = concat (map (db_upper U) s)"

text \<open>\<^verbatim>\<open>s.replace(" ", "")\<close> removes every space (U+0020) of the string.\<close>

definition remove_spaces :: "pystr \<Rightarrow> pystr" where
  "remove_spaces s = filter (\<lambda>c. c \<noteq> 32) s"

text \<open>
  The database of Python on the code points below 256 and on the two capitals, U+0178
  and U+039C, that uppercasing reaches from there: the letters are A to Z, a to z,
  U+00AA, U+00B5, U+00BA and U+00C0 to U+00FF without the signs U+00D7 and U+00F7;
  the superscripts U+00B2, U+00B3 and U+00B9 are digits, the fractions U+00BC to
  U+00BE are numeric; U+00B5 has the capital U+039C, U+00DF the two capitals SS,
  U+00FF the capital U+0178. It serves for the examples, which stay in that range.
\<close>

definition latin1_db :: unicode_db where
  "latin1_db =
     \<lparr>db_isalpha = (\<lambda>c. (65 \<le> c \<and> c \<le> 90) \<or> (97 \<le> c \<and> c \<le> 122) \<or> c = 170 \<or> c = 181
                        \<or> c = 186 \<or> (192 \<le> c \<and> c \<le> 214) \<or> (216 \<le> c \<and> c \<le> 246)
                        \<or> (248 \<le> c \<and> c \<le> 255) \<or> c = 376 \<or> c = 924),
      db_isdecimal = (\<lambda>c. 48 \<le> c \<and> c \<le> 57),
      db_isdigit = (\<lambda>c. (48 \<le> c \<and> c \<le> 57) \<or> c = 178 \<or> c = 179 \<or> c = 185),
      db_isnumeric = (\<lambda>c. (48 \<le> c \<and> c \<le> 57) \<or> c = 178 \<or> c = 179 \<or> c = 185
                          \<or> (188 \<le> c \<and> c \<le> 190)),
      db_upper = (\<lambda>c. if (97 \<le> c \<and> c \<le> 122) \<or> (224 \<le> c \<and> c \<le> 246) \<or> (248 \<le> c \<and> c \<le> 254)
                         then [c - 32]
                       else if c = 181 then [924]
                       else if c = 223 then [83, 83]
                       else if c = 255 then [376]
                       else [c])\<rparr>"

text \<open>
  A database that has Python's values on the ASCII range, which every version of the
  Unicode database has: the letters are A to Z and a to z, the digits 0 to 9, and the
  capital of a small letter is 32 below it.
\<close>

definition ascii_tables :: "unicode_db \<Rightarrow> bool" where
  "ascii_tables U =
     (\<forall>c<128. db_isalpha U c = ((65 \<le> c \<and> c \<le> 90) \<or> (97 \<le> c \<and> c \<le> 122))
             \<and> db_isdecimal U c = (48 \<le> c \<and> c \<le> 57)
             \<and> db_isdigit U c = (48 \<le> c \<and> c \<le> 57)
             \<and> db_isnumeric U c = (48 \<le> c \<and> c \<le> 57)
             \<and> db_upper U c = [if 97 \<le> c \<and> c \<le> 122 then c - 32 else c])"

text \<open>
  On the text that the program reads, Python's \<^verbatim>\<open>str.isspace\<close> and \<^verbatim>\<open>str.lower\<close> for the
  code points below 256: the whitespace is U+0009 to U+000D, U+001C to U+0020, U+0085
  and U+00A0; the capitals A to Z and U+00C0 to U+00DE, without the sign U+00D7, have
  their small letter 32 above, which stays below 256.
\<close>

definition chr_isspace :: "char \<Rightarrow> bool" where
  "chr_isspace c = ((9 \<le> (of_char c :: nat) \<and> (of_char c :: nat) \<le> 13)
                    \<or> (28 \<le> (of_char c :: nat) \<and> (of_char c :: nat) \<le> 32)
                    \<or> (of_char c :: nat) = 133 \<or> (of_char c :: nat) = 160)"

definition chr_isupper :: "char \<Rightarrow> bool" where
  "chr_isupper c = ((65 \<le> (of_char c :: nat) \<and> (of_char c :: nat) \<le> 90)
                    \<or> (192 \<le> (of_char c :: nat) \<and> (of_char c :: nat) \<le> 214)
                    \<or> (216 \<le> (of_char c :: nat) \<and> (of_char c :: nat) \<le> 222))"

definition chr_lower :: "char \<Rightarrow> char" where
  "chr_lower c = (if chr_isupper c then char_of ((of_char c :: nat) + 32) else c)"

definition lower :: "string \<Rightarrow> string" where
  "lower s = map chr_lower s"

text \<open>\<^verbatim>\<open>s.strip()\<close> removes the leading and the trailing whitespace.\<close>

definition strip :: "string \<Rightarrow> string" where
  "strip s = rev (dropWhile chr_isspace (rev (dropWhile chr_isspace s)))"

text \<open>
  \<^verbatim>\<open>s[i:]\<close> for any integer \<open>i\<close>: a negative start counts from the end, and the
  start is clamped to the string.
\<close>

definition slice_from :: "string \<Rightarrow> int \<Rightarrow> string" where
  "slice_from s i =
     (let n = int (length s);
          j = (if i < 0 then max 0 (n + i) else min i n)
      in drop (nat j) s)"

text \<open>\<^verbatim>\<open>c * k\<close> for a one-character string: empty when \<open>k\<close> is not positive.\<close>

definition repeat_chr :: "char \<Rightarrow> int \<Rightarrow> string" where
  "repeat_chr c k = replicate (nat k) c"

section \<open>utils.py: masking\<close>

definition mask_sensitive_data :: "string \<Rightarrow> int \<Rightarrow> string" where
  "mask_sensitive_data data characters_to_show =
     (if data = [] then []
      else if int (length data) \<le> characters_to_show
        then repeat_chr CHR ''*'' (int (length data))
      else repeat_chr CHR ''*'' (int (length data) - characters_to_show)
             @ slice_from data (- characters_to_show))"

section \<open>validation.py: BIC and IBAN\<close>

text \<open>
  Each message constructor stands for one of the formatted messages of the source and
  carries the values the message interpolates.
\<close>

datatype 's bic_msg =
    BicBadLength nat
  | BicBadBank 's
  | BicBadCountry 's
  | BicBadLocation 's
  | BicBadBranch 's
  | BicValid

definition validate_bic :: "unicode_db \<Rightarrow> pystr \<Rightarrow> bool \<times> pystr bic_msg" where
  "validate_bic U bic0 =
     (let bic = upper U (remove_spaces bic0) in
      if length bic \<notin> set [8, 11] then (False, BicBadLength (length bic))
      else if \<not> isalpha U (take 4 bic) then (False, BicBadBank (take 4 bic))
      else if \<not> isalpha U (take 2 (drop 4 bic)) then (False, BicBadCountry (take 2 (drop 4 bic)))
      else if \<not> isalnum U (take 2 (drop 6 bic)) then (False, BicBadLocation (take 2 (drop 6 bic)))
      else if length bic = 11 \<and> \<not> isalnum U (drop 8 bic) then (False, BicBadBranch (drop 8 bic))
      else (True, BicValid))"

datatype 's iban_msg =
    IbanTooShort
  | IbanBadCountry 's
  | IbanBadCheckDigits 's
  | IbanBadBban 's
  | IbanBadLength 's nat nat
  | IbanValid

text \<open>The per-country lengths of the source, in the order of the dictionary literal.\<close>

definition country_lengths :: "(pystr \<times> nat) list" where
  "country_lengths =
     [(codepoints ''FR'', 27), (codepoints ''DE'', 22), (codepoints ''GB'', 22),
      (codepoints ''CI'', 28), (codepoints ''SN'', 28), (codepoints ''JP'', 24),
      (codepoints ''US'', 24)]"

text \<open>
  \<^verbatim>\<open>re.match(r"^[A-Z]{2}", s)\<close>: the first two code points are capitals A to Z, U+0041
  to U+005A, whatever the database says of other letters.
\<close>

definition capital_a_to_z :: "codepoint \<Rightarrow> bool" where
  "capital_a_to_z c = (65 \<le> c \<and> c \<le> 90)"

definition match_two_capitals :: "pystr \<Rightarrow> bool" where
  "match_two_capitals s =
     (case s of c1 # c2 # _ \<Rightarrow> capital_a_to_z c1 \<and> capital_a_to_z c2 | _ \<Rightarrow> False)"

definition validate_iban :: "unicode_db \<Rightarrow> pystr \<Rightarrow> bool \<times> pystr iban_msg" where
  "validate_iban U iban0 =
     (let iban = upper U (remove_spaces iban0) in
      if length iban < 5 then (False, IbanTooShort)
      else if \<not> match_two_capitals iban then (False, IbanBadCountry (take 2 iban))
      else if \<not> isdigit U (take 2 (drop 2 iban)) then (False, IbanBadCheckDigits (take 2 (drop 2 iban)))
      else if \<not> isalnum U (drop 4 iban) then (False, IbanBadBban (drop 4 iban))
      else (let country = take 2 iban in
            case map_of country_lengths country of
              Some n \<Rightarrow> if length iban \<noteq> n then (False, IbanBadLength country (length iban) n)
                        else (True, IbanValid)
            | None \<Rightarrow> (True, IbanValid)))"


section \<open>Floating-point values and cells\<close>

text \<open>
  A Python float is a double: a real number, its value, or one of the three special
  values of the format. The sign of a zero is not modelled: the code uses the quotient
  that could show it through its absolute value only.
\<close>

datatype pyfloat = Fin real | PInf | NInf | NaN

text \<open>
  The rounding of the format, binary64 with round to nearest and ties to even: the
  result has 53 significant bits, its last bit is not below \<open>2 ^ - 1074\<close>, and a
  result of magnitude \<open>2 ^ 1024\<close> or more is an infinity.
\<close>

definition round_half_even :: "real \<Rightarrow> int" where
  "round_half_even q =
     (let n = \<lfloor>q\<rfloor> in
      if q - of_int n < 1 / 2 then n
      else if 1 / 2 < q - of_int n then n + 1
      else if even n then n else n + 1)"

definition double_exponent :: "real \<Rightarrow> int" where
  "double_exponent x = max (- 1074) (\<lfloor>log 2 \<bar>x\<bar>\<rfloor> - 52)"

definition inf_of_sign :: "real \<Rightarrow> pyfloat" where
  "inf_of_sign s = (if s = 0 then NaN else if 0 < s then PInf else NInf)"

definition round_double :: "real \<Rightarrow> pyfloat" where
  "round_double x =
     (if x = 0 then Fin 0
      else let e = double_exponent x;
               y = of_int (round_half_even (x / 2 powi e)) * 2 powi e
           in if 2 ^ 1024 \<le> \<bar>y\<bar> then inf_of_sign (sgn x) else Fin y)"

text \<open>
  The arithmetic on doubles: the result on two finite values is the rounding \<open>rnd\<close> of
  the exact result, and the special values follow the rules of the format.
\<close>

fun fneg :: "pyfloat \<Rightarrow> pyfloat" where
  "fneg (Fin x) = Fin (- x)"
| "fneg PInf = NInf"
| "fneg NInf = PInf"
| "fneg NaN = NaN"

fun fadd :: "(real \<Rightarrow> pyfloat) \<Rightarrow> pyfloat \<Rightarrow> pyfloat \<Rightarrow> pyfloat" where
  "fadd rnd NaN _ = NaN"
| "fadd rnd _ NaN = NaN"
| "fadd rnd (Fin x) (Fin y) = rnd (x + y)"
| "fadd rnd PInf NInf = NaN"
| "fadd rnd NInf PInf = NaN"
| "fadd rnd PInf _ = PInf"
| "fadd rnd _ PInf = PInf"
| "fadd rnd NInf _ = NInf"
| "fadd rnd _ NInf = NInf"

definition fsub :: "(real \<Rightarrow> pyfloat) \<Rightarrow> pyfloat \<Rightarrow> pyfloat \<Rightarrow> pyfloat" where
  "fsub rnd a b = fadd rnd a (fneg b)"

text \<open>The sign of a value that is not NaN: \<open>-1\<close>, \<open>0\<close> or \<open>1\<close>.\<close>

fun fsign :: "pyfloat \<Rightarrow> real" where
  "fsign (Fin x) = sgn x"
| "fsign PInf = 1"
| "fsign NInf = - 1"
| "fsign NaN = 0"

fun fmul :: "(real \<Rightarrow> pyfloat) \<Rightarrow> pyfloat \<Rightarrow> pyfloat \<Rightarrow> pyfloat" where
  "fmul rnd NaN _ = NaN"
| "fmul rnd _ NaN = NaN"
| "fmul rnd (Fin x) (Fin y) = rnd (x * y)"
| "fmul rnd a b = inf_of_sign (fsign a * fsign b)"

fun fdiv :: "(real \<Rightarrow> pyfloat) \<Rightarrow> pyfloat \<Rightarrow> pyfloat \<Rightarrow> pyfloat" where
  "fdiv rnd NaN _ = NaN"
| "fdiv rnd _ NaN = NaN"
| "fdiv rnd (Fin x) (Fin y) = (if y = 0 then inf_of_sign (sgn x) else rnd (x / y))"
| "fdiv rnd (Fin x) _ = Fin 0"
| "fdiv rnd a (Fin y) = inf_of_sign (fsign a * (if y < 0 then - 1 else 1))"
| "fdiv rnd _ _ = NaN"

fun fsqrt :: "(real \<Rightarrow> pyfloat) \<Rightarrow> pyfloat \<Rightarrow> pyfloat" where
  "fsqrt rnd (Fin x) = (if x < 0 then NaN else rnd (sqrt x))"
| "fsqrt rnd PInf = PInf"
| "fsqrt rnd NInf = NaN"
| "fsqrt rnd NaN = NaN"

fun fabs :: "pyfloat \<Rightarrow> pyfloat" where
  "fabs (Fin x) = Fin \<bar>x\<bar>"
| "fabs PInf = PInf"
| "fabs NInf = PInf"
| "fabs NaN = NaN"

text \<open>\<^verbatim>\<open>a > b\<close>: false as soon as one side is NaN.\<close>

fun fgt :: "pyfloat \<Rightarrow> pyfloat \<Rightarrow> bool" where
  "fgt NaN _ = False"
| "fgt _ NaN = False"
| "fgt (Fin x) (Fin y) = (y < x)"
| "fgt PInf PInf = False"
| "fgt PInf _ = True"
| "fgt NInf _ = False"
| "fgt (Fin x) PInf = False"
| "fgt (Fin x) NInf = True"

text \<open>
  A cell of a frame or of a row: a float, a string, a boolean, or the missing value
  (\<^verbatim>\<open>None\<close>, \<^verbatim>\<open>pd.NA\<close>). \<^verbatim>\<open>pd.isna\<close> holds of the missing value and of NaN.
\<close>

datatype cell = Num pyfloat | Str string | Bool bool | NA

fun isna :: "cell \<Rightarrow> bool" where
  "isna NA = True"
| "isna (Num NaN) = True"
| "isna _ = False"

datatype py_error = TypeError | ValueError

text \<open>
  \<^verbatim>\<open>str(x)\<close> of a cell. A string is itself; the rendering of the other values (the
  repr of a float, of a boolean, of the missing value) is a parameter \<open>fmt\<close> of the
  model.
\<close>

fun str_of :: "(cell \<Rightarrow> string) \<Rightarrow> cell \<Rightarrow> string" where
  "str_of fmt (Str s) = s"
| "str_of fmt c = fmt c"

text \<open>
  The numeric reading of a cell in arithmetic and comparisons: a boolean counts as 0
  or 1, the missing value as NaN, and a string raises \<^verbatim>\<open>TypeError\<close>.
\<close>

fun as_float :: "cell \<Rightarrow> py_error + pyfloat" where
  "as_float (Num x) = Inr x"
| "as_float (Bool b) = Inr (Fin (if b then 1 else 0))"
| "as_float NA = Inr NaN"
| "as_float (Str s) = Inl TypeError"

text \<open>
  A pandas Series used as a row: labels with their values, in order. Reading a label
  the row does not carry gives the missing value, as a frame does for a cell that was
  never filled.
\<close>

type_synonym series = "(string \<times> cell) list"

definition series_at :: "series \<Rightarrow> string \<Rightarrow> cell" where
  "series_at row col = (case map_of row col of Some c \<Rightarrow> c | None \<Rightarrow> NA)"

definition series_index :: "series \<Rightarrow> string list" where
  "series_index row = map fst row"

section \<open>validation.py: one transaction\<close>

record rules =
  max_transaction_amount :: "real option"
  allowed_currencies :: "string list option"

text \<open>
  The source prints one diagnostic line before each return; the function returns the
  boolean only. Each constructor stands for one of the printed lines, with the values
  it interpolates.
\<close>

datatype debug =
    DbgMissingColumns "string list"
  | DbgNullValues
  | DbgAmountExceeds cell pyfloat
  | DbgCurrencyNotAllowed pystr "pystr list"
  | DbgIssuerIban "pystr iban_msg"
  | DbgBeneficiaryIban "pystr iban_msg"
  | DbgBic "pystr bic_msg"
  | DbgValid

definition required_cols :: "string list" where
  "required_cols = [''Montant'', ''Devise'', ''IBAN_Emetteur'', ''IBAN_Beneficiaire'', ''BIC_SWIFT'']"

text \<open>\<^verbatim>\<open>rules.get("max_transaction_amount", float('inf'))\<close>\<close>

definition max_amount_of :: "rules \<Rightarrow> pyfloat" where
  "max_amount_of r = (case max_transaction_amount r of Some m \<Rightarrow> Fin m | None \<Rightarrow> PInf)"

text \<open>\<^verbatim>\<open>[c.strip().upper() for c in rules.get("allowed_currencies", [])]\<close>\<close>

definition allowed_currencies_of :: "unicode_db \<Rightarrow> rules \<Rightarrow> pystr list" where
  "allowed_currencies_of U r =
     map (\<lambda>c. upper U (codepoints (strip c)))
       (case allowed_currencies r of Some cs \<Rightarrow> cs | None \<Rightarrow> [])"

text \<open>
  The result is the returned value (or the exception raised) and the lines printed.
  The comparison of the amount with the maximum raises \<^verbatim>\<open>TypeError\<close> on a string.
\<close>

definition validate_transaction ::
  "unicode_db \<Rightarrow> (cell \<Rightarrow> string) \<Rightarrow> series \<Rightarrow> rules \<Rightarrow> (py_error + bool) \<times> debug list" where
  "validate_transaction U fmt row rules =
     (if \<not> list_all (\<lambda>col. col \<in> set (series_index row)) required_cols
        then (Inr False, [DbgMissingColumns required_cols])
      else if list_ex (\<lambda>col. isna (series_at row col)) required_cols
        then (Inr False, [DbgNullValues])
      else
        let montant = series_at row ''Montant'';
            devise = upper U (codepoints (strip (str_of fmt (series_at row ''Devise''))));
            max_amount = max_amount_of rules
        in case (if \<not> isna montant
                 then (case as_float montant of
                         Inl e \<Rightarrow> Inl e
                       | Inr m \<Rightarrow> Inr (fgt m max_amount))
                 else Inr False) of
             Inl e \<Rightarrow> (Inl e, [])
           | Inr True \<Rightarrow> (Inr False, [DbgAmountExceeds montant max_amount])
           | Inr False \<Rightarrow>
               let allowed = allowed_currencies_of U rules in
               if allowed \<noteq> [] \<and> devise \<notin> set allowed
                 then (Inr False, [DbgCurrencyNotAllowed devise allowed])
               else
                 let (is_valid_emetteur, msg_emetteur) =
                        validate_iban U (codepoints (str_of fmt (series_at row ''IBAN_Emetteur'')))
                 in if \<not> is_valid_emetteur then (Inr False, [DbgIssuerIban msg_emetteur])
                 else
                   let (is_valid_beneficiaire, msg_beneficiaire) =
                          validate_iban U
                            (codepoints (str_of fmt (series_at row ''IBAN_Beneficiaire'')))
                   in if \<not> is_valid_beneficiaire
                        then (Inr False, [DbgBeneficiaryIban msg_beneficiaire])
                   else
                     let (is_valid_bic, msg_bic) =
                            validate_bic U (codepoints (str_of fmt (series_at row ''BIC_SWIFT'')))
                     in if \<not> is_valid_bic then (Inr False, [DbgBic msg_bic])
                        else (Inr True, [DbgValid]))"

text \<open>
  The five checks and the required-field test by name, to state the order in which
  \<open>validate_transaction\<close> applies them.
\<close>

definition has_required_fields :: "series \<Rightarrow> bool" where
  "has_required_fields row =
     (list_all (\<lambda>col. col \<in> set (series_index row)) required_cols
      \<and> \<not> list_ex (\<lambda>col. isna (series_at row col)) required_cols)"

definition amount_within_limit :: "series \<Rightarrow> rules \<Rightarrow> bool" where
  "amount_within_limit row rules =
     (case as_float (series_at row ''Montant'') of
        Inr m \<Rightarrow> \<not> fgt m (max_amount_of rules)
      | Inl e \<Rightarrow> False)"

definition currency_allowed :: "unicode_db \<Rightarrow> (cell \<Rightarrow> string) \<Rightarrow> series \<Rightarrow> rules \<Rightarrow> bool" where
  "currency_allowed U fmt row rules =
     (allowed_currencies_of U rules = []
      \<or> upper U (codepoints (strip (str_of fmt (series_at row ''Devise''))))
           \<in> set (allowed_currencies_of U rules))"

definition iban_ok :: "unicode_db \<Rightarrow> (cell \<Rightarrow> string) \<Rightarrow> series \<Rightarrow> string \<Rightarrow> bool" where
  "iban_ok U fmt row col = fst (validate_iban U (codepoints (str_of fmt (series_at row col))))"

definition bic_ok :: "unicode_db \<Rightarrow> (cell \<Rightarrow> string) \<Rightarrow> series \<Rightarrow> bool" where
  "bic_ok U fmt row = fst (validate_bic U (codepoints (str_of fmt (series_at row ''BIC_SWIFT''))))"

text \<open>Example data: a well-formed transaction with a given amount, and a rule set.\<close>

definition example_row :: "pyfloat \<Rightarrow> series" where
  "example_row amount =
     [(''Montant'', Num amount), (''Devise'', Str '' eur ''),
      (''IBAN_Emetteur'', Str ''FR1420041010050500013M02606''),
      (''IBAN_Beneficiaire'', Str ''DE89370400440532013000''),
      (''BIC_SWIFT'', Str ''BNPAFRPP'')]"

definition example_rules :: rules where
  "example_rules =
     \<lparr>max_transaction_amount = Some 10000000, allowed_currencies = Some [''EUR'', ''xof'']\<rparr>"

section \<open>categorization.py\<close>

text \<open>
  The regular expressions of the source, as far as it builds them: a pattern is a
  sequence of literal characters and word-boundary assertions. In the text of a
  pattern a backslash followed by \<open>b\<close> is the assertion \<^verbatim>\<open>\b\<close>, and a backslash
  followed by any other character is that character taken literally (so two
  backslashes are one literal backslash); the other characters stand for themselves.
  \<^verbatim>\<open>re.escape\<close> puts a backslash before each special character, so an escaped keyword
  has no metacharacter left.
\<close>

datatype re_item = Lit char | WordBoundary

definition backslash :: char where
  "backslash = CHR 0x5C"

definition re_special_chars :: string where
  "re_special_chars =
     ''()[]{}?*+-|^$'' @ [backslash] @ ''.&~# '' @ [CHR 0x09, CHR 0x0A, CHR 0x0D, CHR 0x0B, CHR 0x0C]"

definition re_escape :: "string \<Rightarrow> string" where
  "re_escape s = concat (map (\<lambda>c. if c \<in> set re_special_chars then [backslash, c] else [c]) s)"

fun re_parse :: "string \<Rightarrow> re_item list" where
  "re_parse [] = []"
| "re_parse [c] = [Lit c]"
| "re_parse (c # d # cs) =
     (if c = backslash
        then (if d = CHR ''b'' then WordBoundary else Lit d) # re_parse cs
      else Lit c # re_parse (d # cs))"

text \<open>
  A word character of \<^verbatim>\<open>\b\<close>: the underscore, or a character that \<^verbatim>\<open>str.isalnum\<close>
  accepts (the text is below 256, where \<open>latin1_db\<close> has Python's values).
\<close>

definition chr_isword :: "char \<Rightarrow> bool" where
  "chr_isword c = (db_isalnum latin1_db (of_char c) \<or> c = CHR ''_'')"

definition isword_opt :: "char option \<Rightarrow> bool" where
  "isword_opt c = (case c of None \<Rightarrow> False | Some d \<Rightarrow> chr_isword d)"

text \<open>
  A match of the whole pattern at the current position: \<open>prev\<close> is the character before
  the position, if any, and the string is the text from the position on.
\<close>

fun re_match_here :: "re_item list \<Rightarrow> char option \<Rightarrow> string \<Rightarrow> bool" where
  "re_match_here [] prev text = True"
| "re_match_here (Lit c # items) prev [] = False"
| "re_match_here (Lit c # items) prev (d # text) = (c = d \<and> re_match_here items (Some d) text)"
| "re_match_here (WordBoundary # items) prev text =
     (isword_opt prev \<noteq> isword_opt (case text of [] \<Rightarrow> None | d # _ \<Rightarrow> Some d)
      \<and> re_match_here items prev text)"

fun re_search_from :: "re_item list \<Rightarrow> char option \<Rightarrow> string \<Rightarrow> bool" where
  "re_search_from items prev [] = re_match_here items prev []"
| "re_search_from items prev (d # text) =
     (re_match_here items prev (d # text) \<or> re_search_from items (Some d) text)"

text \<open>\<^verbatim>\<open>re.search(pattern, text)\<close>, as a truth value.\<close>

definition re_search :: "string \<Rightarrow> string \<Rightarrow> bool" where
  "re_search pattern text = re_search_from (re_parse pattern) None text"

definition CATEGORIES_PAR_DEFAUT :: "(string \<times> string list) list" where
  "CATEGORIES_PAR_DEFAUT =
     [(''salaire'', [''salaire'', ''payroll'', ''remuneration'']),
      (''loyer'', [''loyer'', ''rent'']),
      (''alimentation'', [''supermarche'', ''carrefour'', ''auchan'', ''leclerc'', ''alimentation'',
          ''epicerie'', ''boulangerie'', ''restaurant'', ''mcdo'', ''kfc'', ''burger'']),
      (''transports'', [''sncf'', ''ratp'', ''uber'', ''taxi'', ''essence'', ''station'',
          ''carburant'', ''total'', ''autoroute'']),
      (''sante'', [''pharmacie'', ''medecin'', ''hopital'', ''mutuelle'', ''doctolib'']),
      (''divertissement'', [''cinema'', ''netflix'', ''spotify'', ''loisir'', ''concert'', ''jeux'']),
      (''autre'', [])]"

text \<open>
  The pattern text of the source, \<^verbatim>\<open>rf"\\b{re.escape(mot)}\\b"\<close>: in a raw string the
  two backslashes stay two characters, so the text is backslash, backslash, \<open>b\<close>, the
  escaped keyword, backslash, backslash, \<open>b\<close>.
\<close>

definition keyword_pattern :: "string \<Rightarrow> string" where
  "keyword_pattern mot =
     [backslash, backslash, CHR ''b''] @ re_escape mot @ [backslash, backslash, CHR ''b'']"

text \<open>The two nested loops: the first label with a keyword that matches.\<close>

fun first_category :: "(string \<times> string list) list \<Rightarrow> string \<Rightarrow> string option" where
  "first_category [] libelle = None"
| "first_category ((categorie, mots_cles) # rest) libelle =
     (if list_ex (\<lambda>mot. re_search (keyword_pattern mot) libelle) mots_cles then Some categorie
      else first_category rest libelle)"

text \<open>
  The description is a string or absent (\<^verbatim>\<open>None\<close>); the table is a dictionary in
  insertion order, or absent. An empty table counts as absent (\<^verbatim>\<open>categories or ...\<close>).
\<close>

definition categoriser_transaction ::
  "string option \<Rightarrow> pyfloat \<Rightarrow> (string \<times> string list) list option \<Rightarrow> string" where
  "categoriser_transaction libelle montant categories =
     (case libelle of
        None \<Rightarrow> ''autre''
      | Some l \<Rightarrow>
          if l = [] then ''autre''
          else
            let l' = lower l;
                cats = (case categories of
                          None \<Rightarrow> CATEGORIES_PAR_DEFAUT
                        | Some t \<Rightarrow> if t = [] then CATEGORIES_PAR_DEFAUT else t)
            in case first_category cats l' of
                 Some categorie \<Rightarrow> categorie
               | None \<Rightarrow> ''autre'')"

section \<open>Frames and the store of frames\<close>

text \<open>
  A DataFrame: its column labels, and its rows in order, each with its index label.
  \<^verbatim>\<open>pd.DataFrame()\<close> has neither columns nor rows, and \<^verbatim>\<open>df.empty\<close> holds as soon as
  one of the two axes has length zero.
\<close>

record dataframe =
  columns :: "string list"
  rows :: "(nat \<times> series) list"

definition empty_frame :: dataframe where
  "empty_frame = \<lparr>columns = [], rows = []\<rparr>"

definition df_empty :: "dataframe \<Rightarrow> bool" where
  "df_empty df = (columns df = [] \<or> rows df = [])"

definition index :: "dataframe \<Rightarrow> nat list" where
  "index df = map fst (rows df)"

text \<open>\<^verbatim>\<open>df[col]\<close>, read: the values of the column in row order.\<close>

definition column_values :: "dataframe \<Rightarrow> string \<Rightarrow> cell list" where
  "column_values df col = map (\<lambda>(i, r). series_at r col) (rows df)"

text \<open>
  \<^verbatim>\<open>df[col] = values\<close>, with one value for each row: an existing column is overwritten
  in place, a new one is added last.
\<close>

definition set_column :: "string \<Rightarrow> cell list \<Rightarrow> dataframe \<Rightarrow> dataframe" where
  "set_column col vals df =
     df\<lparr>columns := (if col \<in> set (columns df) then columns df else columns df @ [col]),
        rows := map (\<lambda>((i, r), v). (i, AList.update col v r)) (zip (rows df) vals)\<rparr>"

text \<open>\<^verbatim>\<open>df[col] = value\<close>, with one value for all rows.\<close>

definition set_scalar :: "string \<Rightarrow> cell \<Rightarrow> dataframe \<Rightarrow> dataframe" where
  "set_scalar col v df = set_column col (replicate (length (rows df)) v) df"

text \<open>\<^verbatim>\<open>df[mask]\<close>, for a mask computed row by row.\<close>

definition select_rows :: "(series \<Rightarrow> bool) \<Rightarrow> dataframe \<Rightarrow> dataframe" where
  "select_rows keep df = df\<lparr>rows := filter (\<lambda>(i, r). keep r) (rows df)\<rparr>"

text \<open>\<^verbatim>\<open>df.drop(columns=[col])\<close>, for a column the frame has.\<close>

definition drop_column :: "string \<Rightarrow> dataframe \<Rightarrow> dataframe" where
  "drop_column col df =
     df\<lparr>columns := removeAll col (columns df),
        rows := map (\<lambda>(i, r). (i, AList.delete col r)) (rows df)\<rparr>"

text \<open>\<^verbatim>\<open>df.iterrows()\<close>: each row as a Series labelled by the columns of the frame.\<close>

definition iterrows :: "dataframe \<Rightarrow> (nat \<times> series) list" where
  "iterrows df = map (\<lambda>(i, r). (i, map (\<lambda>c. (c, series_at r c)) (columns df))) (rows df)"

text \<open>
  Frames are objects that the code shares and mutates: a variable holds a reference
  into a store, \<^verbatim>\<open>df.copy()\<close> and every operation that builds a frame allocate, and
  an assignment to a column or an in-place drop writes the store at the reference.
\<close>

type_synonym ref = nat
type_synonym store = "dataframe list"

definition alloc :: "dataframe \<Rightarrow> store \<Rightarrow> ref \<times> store" where
  "alloc df h = (length h, h @ [df])"

section \<open>fraud\_detection.py\<close>

fun as_floats :: "cell list \<Rightarrow> py_error + pyfloat list" where
  "as_floats [] = Inr []"
| "as_floats (c # cs) =
     (case as_float c of
        Inl e \<Rightarrow> Inl e
      | Inr x \<Rightarrow> (case as_floats cs of Inl e \<Rightarrow> Inl e | Inr xs \<Rightarrow> Inr (x # xs)))"

text \<open>
  The statistics of a column are computed by pandas and the arithmetic on a column,
  element by element, by numpy. The model takes them from a numeric library, a
  parameter of \<open>detect_anomalies\<close>: the rounding of an operation on two elements,
  \<^verbatim>\<open>Series.mean()\<close> and \<^verbatim>\<open>Series.std(ddof=0)\<close>.
\<close>

record numeric_library =
  lib_round :: "real \<Rightarrow> pyfloat"
  lib_mean :: "pyfloat list \<Rightarrow> pyfloat"
  lib_std0 :: "pyfloat list \<Rightarrow> pyfloat"

text \<open>
  The library of doubles, as pandas computes on a column of fewer than eight values:
  the NaN entries are skipped, a sum is taken from left to right, the mean is the sum
  over the count, the variance is the sum of the squared deviations from the mean over
  the count, the standard deviation is its square root, and each operation is
  rounded. It serves for the examples.
\<close>

definition fsum :: "(real \<Rightarrow> pyfloat) \<Rightarrow> pyfloat list \<Rightarrow> pyfloat" where
  "fsum rnd xs = foldl (fadd rnd) (Fin 0) xs"

definition sequential_mean :: "(real \<Rightarrow> pyfloat) \<Rightarrow> pyfloat list \<Rightarrow> pyfloat" where
  "sequential_mean rnd xs =
     (let vs = filter (\<lambda>x. x \<noteq> NaN) xs in fdiv rnd (fsum rnd vs) (Fin (real (length vs))))"

definition sequential_std0 :: "(real \<Rightarrow> pyfloat) \<Rightarrow> pyfloat list \<Rightarrow> pyfloat" where
  "sequential_std0 rnd xs =
     (let vs = filter (\<lambda>x. x \<noteq> NaN) xs;
          avg = sequential_mean rnd xs;
          sqr = map (\<lambda>x. fmul rnd (fsub rnd avg x) (fsub rnd avg x)) vs
      in fsqrt rnd (fdiv rnd (fsum rnd sqr) (Fin (real (length vs)))))"

definition double_library :: numeric_library where
  "double_library =
     \<lparr>lib_round = round_double,
      lib_mean = sequential_mean round_double,
      lib_std0 = sequential_std0 round_double\<rparr>"

text \<open>\<^verbatim>\<open>df['zscore'].abs() > seuil_zscore\<close> on one row.\<close>

definition zscore_exceeds :: "real \<Rightarrow> series \<Rightarrow> bool" where
  "zscore_exceeds seuil_zscore row =
     (case series_at row ''zscore'' of
        Num z \<Rightarrow> fgt (fabs z) (Fin seuil_zscore)
      | _ \<Rightarrow> False)"

text \<open>
  The result is the reference of the returned frame, or the exception raised, and the
  store after the call. The arithmetic on a column that holds a string raises
  \<^verbatim>\<open>TypeError\<close>.
\<close>

definition detect_anomalies ::
  "numeric_library \<Rightarrow> store \<Rightarrow> ref \<Rightarrow> string \<Rightarrow> real \<Rightarrow> (py_error + ref) \<times> store" where
  "detect_anomalies L h df montant_col seuil_zscore =
     (if montant_col \<notin> set (columns (h ! df))
         \<or> list_all isna (column_values (h ! df) montant_col)
        then (let (r, h1) = alloc empty_frame h in (Inr r, h1))
      else
        let (df', h1) = alloc (h ! df) h in
        case as_floats (column_values (h1 ! df') montant_col) of
          Inl e \<Rightarrow> (Inl e, h1)
        | Inr xs \<Rightarrow>
            let zscore = map (\<lambda>x. fdiv (lib_round L)
                                      (fsub (lib_round L) x (lib_mean L xs)) (lib_std0 L xs)) xs;
                h2 = h1[df' := set_column ''zscore'' (map Num zscore) (h1 ! df')];
                (suspects, h3) = alloc (select_rows (zscore_exceeds seuil_zscore) (h2 ! df')) h2;
                (r, h4) = alloc (drop_column ''zscore'' (h3 ! suspects)) h3
            in (Inr r, h4))"

section \<open>data\_processor.py: validation of a frame\<close>

definition expected_cols :: "string list" where
  "expected_cols = [''Montant'', ''Devise'', ''IBAN_Emetteur'', ''IBAN_Beneficiaire'', ''BIC_SWIFT'']"

definition sensitive_cols :: "string list" where
  "sensitive_cols = [''IBAN_Emetteur'', ''IBAN_Beneficiaire'']"

fun add_missing_columns :: "string list \<Rightarrow> dataframe \<Rightarrow> dataframe" where
  "add_missing_columns [] df = df"
| "add_missing_columns (col # cols) df =
     add_missing_columns cols (if col \<notin> set (columns df) then set_scalar col NA df else df)"

text \<open>The body of the loop over the rows: an exception of the validation counts as invalid.\<close>

definition row_validity :: "unicode_db \<Rightarrow> (cell \<Rightarrow> string) \<Rightarrow> rules \<Rightarrow> series \<Rightarrow> bool" where
  "row_validity U fmt rules row =
     (case fst (validate_transaction U fmt row rules) of
        Inr is_valid \<Rightarrow> is_valid
      | Inl e \<Rightarrow> False)"

text \<open>\<^verbatim>\<open>df[col] = df[col].apply(lambda x: mask_sensitive_data(str(x)))\<close>\<close>

definition mask_column :: "(cell \<Rightarrow> string) \<Rightarrow> string \<Rightarrow> dataframe \<Rightarrow> dataframe" where
  "mask_column fmt col df =
     set_column col (map (\<lambda>x. Str (mask_sensitive_data (str_of fmt x) 4)) (column_values df col)) df"

fun mask_sensitive_columns ::
  "(cell \<Rightarrow> string) \<Rightarrow> string list \<Rightarrow> ref \<Rightarrow> ref \<Rightarrow> store \<Rightarrow> store" where
  "mask_sensitive_columns fmt [] valid_df invalid_df h = h"
| "mask_sensitive_columns fmt (col # cols) valid_df invalid_df h =
     (let h1 = (if col \<in> set (columns (h ! valid_df))
                  then h[valid_df := mask_column fmt col (h ! valid_df)] else h);
          h2 = (if col \<in> set (columns (h1 ! invalid_df))
                  then h1[invalid_df := mask_column fmt col (h1 ! invalid_df)] else h1)
      in mask_sensitive_columns fmt cols valid_df invalid_df h2)"

text \<open>
  The result is the pair of references (valid, invalid) and the store after the call;
  the frame of the caller is changed in place (columns added). Of \<^verbatim>\<open>df[mask].copy()\<close>
  the model allocates the copy only, the intermediate frame being dropped at once.
  The log records are not part of the model.
\<close>

definition validate_data ::
  "unicode_db \<Rightarrow> (cell \<Rightarrow> string) \<Rightarrow> rules \<Rightarrow> store \<Rightarrow> ref \<Rightarrow> (ref \<times> ref) \<times> store" where
  "validate_data U fmt rules h df =
     (if df_empty (h ! df)
        then (let (v, h1) = alloc empty_frame h;
                  (i, h2) = alloc empty_frame h1
              in ((v, i), h2))
      else
        let h1 = h[df := add_missing_columns expected_cols (h ! df)];
            validity_results = map (\<lambda>(idx, row). row_validity U fmt rules row) (iterrows (h1 ! df));
            h2 = h1[df := set_column ''is_valid'' (map Bool validity_results) (h1 ! df)];
            (valid_df, h3) =
               alloc (select_rows (\<lambda>row. series_at row ''is_valid'' = Bool True) (h2 ! df)) h2;
            (invalid_df, h4) =
               alloc (select_rows (\<lambda>row. \<not> series_at row ''is_valid'' = Bool True) (h3 ! df)) h3;
            h5 = h4[valid_df := drop_column ''is_valid'' (h4 ! valid_df)];
            h6 = h5[invalid_df := drop_column ''is_valid'' (h5 ! invalid_df)];
            h7 = mask_sensitive_columns fmt sensitive_cols valid_df invalid_df h6
        in ((valid_df, invalid_df), h7))"

section \<open>data\_processor.py: the ledger of processed files\<close>

text \<open>
  A path is its anchor (empty for a relative path) and its components. A path is
  relative to another when the anchors agree and the components of the other are a
  prefix of its own; otherwise \<^verbatim>\<open>relative_to\<close> raises \<^verbatim>\<open>ValueError\<close>.
\<close>

record path =
  anchor :: string
  parts :: "string list"

definition relative_to :: "path \<Rightarrow> path \<Rightarrow> py_error + path" where
  "relative_to p other =
     (if anchor p = anchor other \<and> take (length (parts other)) (parts p) = parts other
        then Inr \<lparr>anchor = [], parts = drop (length (parts other)) (parts p)\<rparr>
      else Inl ValueError)"

fun join_parts :: "string list \<Rightarrow> string" where
  "join_parts [] = []"
| "join_parts [x] = x"
| "join_parts (x # y # ys) = x @ ''/'' @ join_parts (y # ys)"

definition str_path :: "path \<Rightarrow> string" where
  "str_path p = (if anchor p = [] \<and> parts p = [] then ''.'' else anchor p @ join_parts (parts p))"

text \<open>
  The state of the processor that the ledger functions use: the project root, the list
  of processed files in memory, and the ledger file, as its content and whether it can
  be opened for appending.
\<close>

record processor =
  project_root :: path
  processed_files :: "string list"
  ledger :: string
  ledger_writable :: bool

definition save_processed_file :: "processor \<Rightarrow> path \<Rightarrow> processor" where
  "save_processed_file s file_path =
     (case relative_to file_path (project_root s) of
        Inl e \<Rightarrow> s
      | Inr rel \<Rightarrow>
          let relative_path = str_path rel in
          if relative_path \<notin> set (processed_files s)
            then (let s1 = s\<lparr>processed_files := processed_files s @ [relative_path]\<rparr>
                  in if ledger_writable s1
                       then s1\<lparr>ledger := ledger s1 @ relative_path @ [CHR 0x0A]\<rparr>
                     else s1)
          else s)"

definition is_processed :: "processor \<Rightarrow> path \<Rightarrow> bool" where
  "is_processed s file_path =
     (case relative_to file_path (project_root s) of
        Inl e \<Rightarrow> False
      | Inr rel \<Rightarrow> str_path rel \<in> set (processed_files s))"

text \<open>
  \<^verbatim>\<open>_load_processed_files\<close>, run when a processor is created: the lines of the ledger
  file, stripped, without the empty ones (\<open>ledger_entries\<close>, the entries that the file
  holds). A file read in text mode ends a line at a line feed or a carriage return; a
  ledger file that does not exist reads as empty.
\<close>

definition is_line_break :: "char \<Rightarrow> bool" where
  "is_line_break c = (c = CHR 0x0A \<or> c = CHR 0x0D)"

fun lines_from :: "string \<Rightarrow> string \<Rightarrow> string list" where
  "lines_from cur [] = (if cur = [] then [] else [cur])"
| "lines_from cur (c # cs) =
     (if is_line_break c then cur # lines_from [] cs else lines_from (cur @ [c]) cs)"

definition file_lines :: "string \<Rightarrow> string list" where
  "file_lines content = lines_from [] content"

definition ledger_entries :: "string \<Rightarrow> string list" where
  "ledger_entries content = filter (\<lambda>l. l \<noteq> []) (map strip (file_lines content))"

definition load_processed_files :: "processor \<Rightarrow> processor" where
  "load_processed_files s = s\<lparr>processed_files := ledger_entries (ledger s)\<rparr>"

text \<open>
  The scan of \<^verbatim>\<open>run_pipeline\<close>: the entries of the input directory that are files
  (a fact of the file system, a parameter here), have a supported suffix and are not
  processed. \<^verbatim>\<open>Path.suffix\<close> is the part of the last component from its last dot, when
  that dot is neither its first nor its last character.
\<close>

definition path_suffix :: "path \<Rightarrow> string" where
  "path_suffix p =
     (if parts p = [] then []
      else let name = last (parts p);
               i = int (length name) - int (length (takeWhile (\<lambda>c. c \<noteq> CHR ''.'') (rev name))) - 1
           in if 0 < i \<and> i < int (length name) - 1 then drop (nat i) name else [])"

definition files_to_process :: "(path \<Rightarrow> bool) \<Rightarrow> processor \<Rightarrow> path list \<Rightarrow> path list" where
  "files_to_process is_file s entries =
     filter (\<lambda>f. is_file f \<and> lower (path_suffix f) \<in> set [''.csv'', ''.xlsx'', ''.xls'', ''.pdf'']
                 \<and> \<not> is_processed s f) entries"

text \<open>
  An identifier that a reload gives back as it was written: not empty, no whitespace
  at either end, no line break inside. A ledger file whose last line is complete: the
  file is empty or ends with a line break, as every file does that only
  \<open>save_processed_file\<close> has written.
\<close>

definition clean_identifier :: "string \<Rightarrow> bool" where
  "clean_identifier x =
     (x \<noteq> [] \<and> \<not> chr_isspace (hd x) \<and> \<not> chr_isspace (last x) \<and> list_all (\<lambda>c. \<not> is_line_break c) x)"

definition ends_with_line_break :: "string \<Rightarrow> bool" where
  "ends_with_line_break content = (content = [] \<or> is_line_break (last content))"

text \<open>
  Example data: a processor rooted at the current directory with one file in its
  ledger, a new input file under the root, and the same file given by an absolute path.
\<close>

definition example_processor :: processor where
  "example_processor =
     \<lparr>project_root = \<lparr>anchor = [], parts = []\<rparr>,
      processed_files = [''data/input/b.csv''],
      ledger = ''data/input/b.csv'' @ [CHR 0x0A],
      ledger_writable = True\<rparr>"

definition example_input_file :: path where
  "example_input_file = \<lparr>anchor = [], parts = [''data'', ''input'', ''a.csv'']\<rparr>"

definition example_outside_file :: path where
  "example_outside_file = \<lparr>anchor = ''/'', parts = [''data'', ''input'', ''a.csv'']\<rparr>"

section \<open>The anomaly rule in the words of the specification\<close>

text \<open>
  The population mean and the population standard deviation (divide by N) of a list
  of reals, the finite values among the cells of a column, and the rule "a row is
  flagged when its value is not null and |value - mean| / stddev > threshold"; with a
  standard deviation of zero nothing is flagged.
\<close>

definition population_mean :: "real list \<Rightarrow> real" where
  "population_mean vs = sum_list vs / real (length vs)"

definition population_stddev :: "real list \<Rightarrow> real" where
  "population_stddev vs =
     sqrt (sum_list (map (\<lambda>v. (v - population_mean vs)\<^sup>2) vs) / real (length vs))"

fun finite_values :: "cell list \<Rightarrow> real list" where
  "finite_values [] = []"
| "finite_values (Num (Fin v) # cs) = v # finite_values cs"
| "finite_values (c # cs) = finite_values cs"

definition flagged :: "string \<Rightarrow> real \<Rightarrow> real list \<Rightarrow> series \<Rightarrow> bool" where
  "flagged col threshold vs row =
     (case series_at row col of
        Num (Fin v) \<Rightarrow>
          population_stddev vs \<noteq> 0
          \<and> \<bar>v - population_mean vs\<bar> / population_stddev vs > threshold
      | _ \<Rightarrow> False)"

text \<open>A cell of a numeric column without infinities: a finite number or a null.\<close>

definition finite_or_null :: "cell \<Rightarrow> bool" where
  "finite_or_null c =
     (case c of Num (Fin v) \<Rightarrow> True | Num NaN \<Rightarrow> True | NA \<Rightarrow> True | _ \<Rightarrow> False)"

text \<open>
  The float that \<open>as_float\<close> reads in a cell, and the z-score as the code computes it
  with the library.
\<close>

definition float_of :: "cell \<Rightarrow> pyfloat" where
  "float_of c = (case as_float c of Inr x \<Rightarrow> x | Inl e \<Rightarrow> NaN)"

definition zscore_of :: "numeric_library \<Rightarrow> pyfloat list \<Rightarrow> pyfloat \<Rightarrow> pyfloat" where
  "zscore_of L xs x = fdiv (lib_round L) (fsub (lib_round L) x (lib_mean L xs)) (lib_std0 L xs)"

text \<open>
  A library computes without rounding error on a column when the mean and the
  standard deviation that it returns are the population mean and the population
  standard deviation of the finite values, and the deviation of each value from the
  mean and its quotient by the standard deviation are doubles, so that their rounding
  is exact. This holds when every intermediate result of the computation is a double.
\<close>

definition computes_exactly :: "numeric_library \<Rightarrow> cell list \<Rightarrow> bool" where
  "computes_exactly L cs =
     (lib_mean L (map float_of cs) = Fin (population_mean (finite_values cs))
      \<and> lib_std0 L (map float_of cs) = Fin (population_stddev (finite_values cs))
      \<and> (\<forall>v\<in>set (finite_values cs).
            lib_round L (v - population_mean (finite_values cs))
              = Fin (v - population_mean (finite_values cs))
            \<and> (population_stddev (finite_values cs) \<noteq> 0 \<longrightarrow>
                 lib_round L ((v - population_mean (finite_values cs))
                                / population_stddev (finite_values cs))
                   = Fin ((v - population_mean (finite_values cs))
                            / population_stddev (finite_values cs)))))"

text \<open>
  Example data: the amounts 10, 10, 10, 10, 1000; three equal amounts and a null;
  three amounts of one tenth, that is of the double nearest to \<open>1 / 10\<close>; a column of
  nulls; and a frame without amount column.
\<close>

definition tenth :: real where
  "tenth = 3602879701896397 / 2 ^ 55"

definition amounts_frame :: "cell list \<Rightarrow> dataframe" where
  "amounts_frame cs =
     \<lparr>columns = [''Montant''],
      rows = map (\<lambda>(i, c). (i, [(''Montant'', c)])) (enumerate 0 cs)\<rparr>"

definition example_amounts :: dataframe where
  "example_amounts =
     amounts_frame [Num (Fin 10), Num (Fin 10), Num (Fin 10), Num (Fin 10), Num (Fin 1000)]"

definition example_equal_amounts :: dataframe where
  "example_equal_amounts = amounts_frame [Num (Fin 5), Num (Fin 5), NA, Num (Fin 5)]"

definition example_tenths :: dataframe where
  "example_tenths = amounts_frame [Num (Fin tenth), Num (Fin tenth), Num (Fin tenth)]"

definition example_null_amounts :: dataframe where
  "example_null_amounts = amounts_frame [NA, Num NaN]"

definition example_no_amount :: dataframe where
  "example_no_amount = \<lparr>columns = [''Libelle''], rows = [(0, [(''Libelle'', Str ''loyer'')])]\<rparr>"

section \<open>Notions for the partition of a frame\<close>

text \<open>
  The frame of the caller as \<open>validate_data\<close> leaves it: the missing expected columns
  added, and the column \<open>is_valid\<close> set from the loop over the rows.
\<close>

definition checked_frame :: "unicode_db \<Rightarrow> (cell \<Rightarrow> string) \<Rightarrow> rules \<Rightarrow> dataframe \<Rightarrow> dataframe" where
  "checked_frame U fmt rules df =
     (let df1 = add_missing_columns expected_cols df
      in set_column ''is_valid''
           (map Bool (map (\<lambda>(idx, row). row_validity U fmt rules row) (iterrows df1))) df1)"

text \<open>
  The verdict of the loop on one row of the frame with its columns completed: the row
  is read as \<open>iterrows\<close> yields it.
\<close>

definition valid_at :: "unicode_db \<Rightarrow> (cell \<Rightarrow> string) \<Rightarrow> rules \<Rightarrow> dataframe \<Rightarrow> nat \<times> series \<Rightarrow> bool" where
  "valid_at U fmt rules df ir =
     row_validity U fmt rules
       (map (\<lambda>c. (c, series_at (snd ir) c)) (columns (add_missing_columns expected_cols df)))"

text \<open>
  Example data: a row whose amount is a text; a frame of three transactions, the
  first valid, the second over the limit, the third with the text amount; and a frame
  that has two index labels and no column.
\<close>

definition example_row_text_amount :: series where
  "example_row_text_amount =
     [(''Montant'', Str ''abc''), (''Devise'', Str ''EUR''),
      (''IBAN_Emetteur'', Str ''FR1420041010050500013M02606''),
      (''IBAN_Beneficiaire'', Str ''DE89370400440532013000''),
      (''BIC_SWIFT'', Str ''BNPAFRPP'')]"

definition example_transactions :: dataframe where
  "example_transactions =
     \<lparr>columns = [''Montant'', ''Devise'', ''IBAN_Emetteur'', ''IBAN_Beneficiaire'', ''BIC_SWIFT''],
      rows = [(0, example_row (Fin 1000)),
              (1, example_row (Fin 15000000)),
              (2, example_row_text_amount)]\<rparr>"

definition example_no_columns :: dataframe where
  "example_no_columns = \<lparr>columns = [], rows = [(0, []), (1, [])]\<rparr>"

section \<open>Facts about lists and characters\<close>

lemma list_all_take_nth:
  "n \<le> length xs \<Longrightarrow> list_all P (take n xs) = (\<forall>i<n. P (xs ! i))"
  by (auto simp: list_all_length)

lemma list_all_drop_nth:
  "list_all P (drop n xs) = (\<forall>i. n \<le> i \<and> i < length xs \<longrightarrow> P (xs ! i))"
proof -
  have "list_all P (drop n xs) = (\<forall>j < length xs - n. P (xs ! (n + j)))"
    by (auto simp: list_all_length)
  also have "\<dots> = (\<forall>i. n \<le> i \<and> i < length xs \<longrightarrow> P (xs ! i))"
  proof (intro iffI allI impI)
    fix i assume h: "\<forall>j < length xs - n. P (xs ! (n + j))" and i: "n \<le> i \<and> i < length xs"
    then have "i - n < length xs - n" by arith
    with h have "P (xs ! (n + (i - n)))" by blast
    with i show "P (xs ! i)" by simp
  next
    fix j assume h: "\<forall>i. n \<le> i \<and> i < length xs \<longrightarrow> P (xs ! i)" and j: "j < length xs - n"
    then show "P (xs ! (n + j))" by simp
  qed
  finally show ?thesis .
qed

lemma list_all_take_drop_nth:
  assumes "n + k \<le> length xs"
  shows "list_all P (take k (drop n xs)) = (\<forall>i. n \<le> i \<and> i < n + k \<longrightarrow> P (xs ! i))"
proof -
  have "take k (drop n xs) = drop n (take (n + k) xs)"
    by (simp add: drop_take)
  then have "list_all P (take k (drop n xs)) =
      (\<forall>i. n \<le> i \<and> i < length (take (n + k) xs) \<longrightarrow> P (take (n + k) xs ! i))"
    by (simp only: list_all_drop_nth)
  with assms show ?thesis by (auto simp: min_def)
qed

lemma match_two_capitals_nth:
  assumes "2 \<le> length s"
  shows "match_two_capitals s = (\<forall>i. i < 2 \<longrightarrow> capital_a_to_z (s ! i))"
proof -
  obtain c1 c2 r where s: "s = c1 # c2 # r"
    using assms by (cases s; cases "tl s") auto
  have "(\<forall>i. i < 2 \<longrightarrow> capital_a_to_z (s ! i)) = (capital_a_to_z (s ! 0) \<and> capital_a_to_z (s ! 1))"
    by (auto simp: less_Suc_eq numeral_2_eq_2)
  then show ?thesis
    by (simp add: s match_two_capitals_def)
qed

text \<open>Text in the ASCII range, under tables that are Python's there.\<close>

lemma ascii_tables_at:
  assumes "ascii_tables U" "c < 128"
  shows "db_isalpha U c = ((65 \<le> c \<and> c \<le> 90) \<or> (97 \<le> c \<and> c \<le> 122))"
    and "db_isdecimal U c = (48 \<le> c \<and> c \<le> 57)"
    and "db_isdigit U c = (48 \<le> c \<and> c \<le> 57)"
    and "db_isnumeric U c = (48 \<le> c \<and> c \<le> 57)"
    and "db_upper U c = [if 97 \<le> c \<and> c \<le> 122 then c - 32 else c]"
  using assms unfolding ascii_tables_def by blast+

lemma ascii_tables_latin1: "ascii_tables latin1_db"
  by (auto simp: ascii_tables_def latin1_db_def)

lemma upper_ascii:
  assumes U: "ascii_tables U" and a: "list_all (\<lambda>c. c < 128) s"
  shows "upper U s = map (\<lambda>c. if 97 \<le> c \<and> c \<le> 122 then c - 32 else c) s"
  using a by (induction s) (simp_all add: upper_def ascii_tables_at(5) [OF U])

lemma upper_ascii_alpha:
  assumes U: "ascii_tables U" and a: "list_all (\<lambda>c. c < 128) s"
      and i: "i < length (upper U (remove_spaces s))"
  shows "capital_a_to_z (upper U (remove_spaces s) ! i) = db_isalpha U (upper U (remove_spaces s) ! i)"
proof -
  define r where "r = remove_spaces s"
  have ar: "list_all (\<lambda>c. c < 128) r"
    using a by (simp add: r_def remove_spaces_def list_all_iff)
  note u = upper_ascii [OF U ar]
  from i have ir: "i < length r" by (simp add: r_def [symmetric] u)
  with ar have lt: "r ! i < 128" by (simp add: list_all_length)
  define x where "x = (if 97 \<le> r ! i \<and> r ! i \<le> 122 then r ! i - 32 else r ! i)"
  have x: "upper U r ! i = x" using ir by (simp add: u x_def)
  have "x < 128" using lt by (auto simp: x_def)
  from ascii_tables_at(1) [OF U this]
  have "db_isalpha U x = capital_a_to_z x"
    by (auto simp: capital_a_to_z_def x_def)
  then show ?thesis by (simp add: r_def [symmetric] x)
qed

section \<open>Masking\<close>

text \<open>
  C9. For a string \<open>s\<close> of more than four characters, \<open>mask_sensitive_data s 4\<close> has the
  length of \<open>s\<close>, ends with the last four characters of \<open>s\<close>, and every character before
  them is the mask character \<open>*\<close>.
\<close>

theorem mask_sensitive_data_keeps_last_four:
  assumes "4 < length s"
  shows "length (mask_sensitive_data s 4) = length s
         \<and> drop (length s - 4) (mask_sensitive_data s 4) = drop (length s - 4) s
         \<and> (\<forall>i. i < length s - 4 \<longrightarrow> mask_sensitive_data s 4 ! i = CHR ''*'')"
proof -
  have "mask_sensitive_data s 4 = replicate (length s - 4) CHR ''*'' @ drop (length s - 4) s"
    using assms
    by (auto simp: mask_sensitive_data_def repeat_chr_def slice_from_def Let_def nat_diff_distrib)
  then show ?thesis
    using assms by (simp add: nth_append)
qed

theorem mask_sensitive_data_iban_witness:
  "4 < length ''FR1420041010050500013M02606''
   \<and> mask_sensitive_data ''FR1420041010050500013M02606'' 4 = ''***********************2606''
   \<and> length (mask_sensitive_data ''FR1420041010050500013M02606'' 4) = 27
   \<and> drop 23 (mask_sensitive_data ''FR1420041010050500013M02606'' 4) = ''2606''
   \<and> mask_sensitive_data ''FR1420041010050500013M02606'' 4 ! 22 = CHR ''*''"
proof -
  have l: "4 < length ''FR1420041010050500013M02606''" by simp
  have v: "mask_sensitive_data ''FR1420041010050500013M02606'' 4 = ''***********************2606''"
    by code_simp
  show ?thesis
    using mask_sensitive_data_keeps_last_four [OF l] l v by simp
qed

section \<open>BIC and IBAN structure\<close>

lemma validate_bic_examples:
  assumes U: "ascii_tables U"
  shows "validate_bic U (codepoints ''BNPAFRPP'') = (True, BicValid)"
    and "validate_bic U (codepoints ''BNPAFRPPXXX'') = (True, BicValid)"
    and "validate_bic U (codepoints ''BNPAFRP'') = (False, BicBadLength 7)"
    and "validate_bic U (codepoints ''bnpa frpp xxx'') = (True, BicValid)"
    and "upper U (remove_spaces (codepoints ''bnpa frpp xxx'')) = codepoints ''BNPAFRPPXXX''"
proof -
  have u: "upper U (remove_spaces (codepoints ''BNPAFRPP'')) = codepoints ''BNPAFRPP''"
          "upper U (remove_spaces (codepoints ''BNPAFRPPXXX'')) = codepoints ''BNPAFRPPXXX''"
          "upper U (remove_spaces (codepoints ''BNPAFRP'')) = codepoints ''BNPAFRP''"
          "upper U (remove_spaces (codepoints ''bnpa frpp xxx'')) = codepoints ''BNPAFRPPXXX''"
    by (simp_all add: remove_spaces_def codepoints_def upper_ascii [OF U])
  show "validate_bic U (codepoints ''BNPAFRPP'') = (True, BicValid)"
    unfolding validate_bic_def u Let_def
    by (simp add: codepoints_def isalpha_def isalnum_def db_isalnum_def ascii_tables_at [OF U])
  show "validate_bic U (codepoints ''BNPAFRPPXXX'') = (True, BicValid)"
    unfolding validate_bic_def u Let_def
    by (simp add: codepoints_def isalpha_def isalnum_def db_isalnum_def ascii_tables_at [OF U])
  show "validate_bic U (codepoints ''BNPAFRP'') = (False, BicBadLength 7)"
    unfolding validate_bic_def u Let_def
    by (simp add: codepoints_def)
  show "validate_bic U (codepoints ''bnpa frpp xxx'') = (True, BicValid)"
    unfolding validate_bic_def u Let_def
    by (simp add: codepoints_def isalpha_def isalnum_def db_isalnum_def ascii_tables_at [OF U])
  show "upper U (remove_spaces (codepoints ''bnpa frpp xxx'')) = codepoints ''BNPAFRPPXXX''"
    by (rule u)
qed

text \<open>
  C5. Whatever the Unicode database, \<open>validate_bic\<close> accepts a string exactly when, with
  the spaces removed and in upper case, it has 8 or 11 characters, characters 1 to 4
  and 5 to 6 are alphabetic (\<^verbatim>\<open>str.isalpha\<close>), characters 7 to 8 are alphanumeric
  (\<^verbatim>\<open>str.isalnum\<close>), and so are characters 9 to 11 when present. BNPAFRPP and
  BNPAFRPPXXX are accepted, BNPAFRP is rejected.
\<close>

theorem validate_bic_accepts_iff:
  "(fst (validate_bic U s) \<longleftrightarrow>
     (let b = upper U (remove_spaces s) in
        (length b = 8 \<or> length b = 11)
        \<and> (\<forall>i. i < 4 \<longrightarrow> db_isalpha U (b ! i))
        \<and> (\<forall>i. 4 \<le> i \<and> i < 6 \<longrightarrow> db_isalpha U (b ! i))
        \<and> (\<forall>i. 6 \<le> i \<and> i < 8 \<longrightarrow> db_isalnum U (b ! i))
        \<and> (\<forall>i. 8 \<le> i \<and> i < length b \<longrightarrow> db_isalnum U (b ! i))))
   \<and> (ascii_tables U \<longrightarrow>
        fst (validate_bic U (codepoints ''BNPAFRPP''))
        \<and> fst (validate_bic U (codepoints ''BNPAFRPPXXX''))
        \<and> \<not> fst (validate_bic U (codepoints ''BNPAFRP'')))"
proof -
  define b where "b = upper U (remove_spaces s)"
  have general: "fst (validate_bic U s) \<longleftrightarrow>
     (let b = upper U (remove_spaces s) in
        (length b = 8 \<or> length b = 11)
        \<and> (\<forall>i. i < 4 \<longrightarrow> db_isalpha U (b ! i))
        \<and> (\<forall>i. 4 \<le> i \<and> i < 6 \<longrightarrow> db_isalpha U (b ! i))
        \<and> (\<forall>i. 6 \<le> i \<and> i < 8 \<longrightarrow> db_isalnum U (b ! i))
        \<and> (\<forall>i. 8 \<le> i \<and> i < length b \<longrightarrow> db_isalnum U (b ! i)))"
  proof (cases "length b = 8 \<or> length b = 11")
    case False
    then show ?thesis by (simp add: validate_bic_def Let_def b_def [symmetric])
  next
    case True
    then have l: "4 \<le> length b" "4 + 2 \<le> length b" "6 + 2 \<le> length b" by auto
    have ne: "take 4 b \<noteq> []" "take 2 (drop 4 b) \<noteq> []" "take 2 (drop 6 b) \<noteq> []"
      using True by auto
    have br: "length b = 11 \<Longrightarrow> drop 8 b \<noteq> []" by auto
    have v8: "length b = 8 \<Longrightarrow> (\<forall>i. 8 \<le> i \<and> i < length b \<longrightarrow> db_isalnum U (b ! i))" by auto
    show ?thesis
      using True ne br v8
      by (auto simp add: validate_bic_def Let_def b_def [symmetric] isalpha_def isalnum_def
            list_all_take_nth [OF l(1)] list_all_take_drop_nth [OF l(2)]
            list_all_take_drop_nth [OF l(3)] list_all_drop_nth)
  qed
  have ex: "ascii_tables U \<longrightarrow>
        fst (validate_bic U (codepoints ''BNPAFRPP''))
        \<and> fst (validate_bic U (codepoints ''BNPAFRPPXXX''))
        \<and> \<not> fst (validate_bic U (codepoints ''BNPAFRP''))"
    by (simp add: validate_bic_examples(1-3))
  from general ex show ?thesis by blast
qed

theorem validate_bic_accepts_witness:
  "ascii_tables latin1_db
   \<and> validate_bic latin1_db (codepoints ''BNPAFRPP'') = (True, BicValid)
   \<and> validate_bic latin1_db (codepoints ''BNPAFRPPXXX'') = (True, BicValid)
   \<and> validate_bic latin1_db (codepoints ''BNPAFRP'') = (False, BicBadLength 7)
   \<and> validate_bic latin1_db (codepoints ''bnpa frpp xxx'') = (True, BicValid)
   \<and> upper latin1_db (remove_spaces (codepoints ''bnpa frpp xxx'')) = codepoints ''BNPAFRPPXXX''
   \<and> db_isalnum latin1_db (upper latin1_db (remove_spaces (codepoints ''bnpa frpp xxx'')) ! 10)
   \<and> validate_bic latin1_db [66, 78, 80, 193, 70, 82, 80, 80] = (True, BicValid)
   \<and> db_isalpha latin1_db 193
   \<and> upper latin1_db [66, 78, 80, 65, 70, 82, 223] = [66, 78, 80, 65, 70, 82, 83, 83]
   \<and> validate_bic latin1_db [66, 78, 80, 65, 70, 82, 223] = (True, BicValid)"
proof -
  note a = ascii_tables_latin1
  note x = validate_bic_examples [OF a]
  have u: "upper latin1_db (remove_spaces (codepoints ''bnpa frpp xxx'')) = codepoints ''BNPAFRPPXXX''"
    by (rule x(5))
  have v: "fst (validate_bic latin1_db (codepoints ''bnpa frpp xxx''))" by (simp add: x(4))
  from validate_bic_accepts_iff [of latin1_db "codepoints ''bnpa frpp xxx''"] v
  have "\<forall>i. 8 \<le> i \<and> i < length (upper latin1_db (remove_spaces (codepoints ''bnpa frpp xxx'')))
          \<longrightarrow> db_isalnum latin1_db (upper latin1_db (remove_spaces (codepoints ''bnpa frpp xxx'')) ! i)"
    unfolding Let_def by blast
  moreover have "8 \<le> (10::nat) \<and> 10 < length (upper latin1_db (remove_spaces (codepoints ''bnpa frpp xxx'')))"
    unfolding u by (simp add: codepoints_def)
  ultimately have n: "db_isalnum latin1_db (upper latin1_db (remove_spaces (codepoints ''bnpa frpp xxx'')) ! 10)"
    by blast
  have l1: "validate_bic latin1_db [66, 78, 80, 193, 70, 82, 80, 80] = (True, BicValid)" by code_simp
  have l2: "db_isalpha latin1_db 193" by (simp add: latin1_db_def)
  have l3: "upper latin1_db [66, 78, 80, 65, 70, 82, 223] = [66, 78, 80, 65, 70, 82, 83, 83]" by code_simp
  have l4: "validate_bic latin1_db [66, 78, 80, 65, 70, 82, 223] = (True, BicValid)" by code_simp
  from a x(1-4) u n l1 l2 l3 l4 show ?thesis by (simp only: simp_thms)
qed

lemma validate_iban_examples:
  assumes U: "ascii_tables U"
  shows "validate_iban U (codepoints ''FR1420041010050500013M02606'') = (True, IbanValid)"
    and "validate_iban U (codepoints ''XX12345678'') = (True, IbanValid)"
    and "validate_iban U (codepoints ''12ABCDEFGH'') = (False, IbanBadCountry (codepoints ''12''))"
    and "validate_iban U (codepoints ''fr14 2004 1010 0505 0001 3M02 606'') = (True, IbanValid)"
    and "upper U (remove_spaces (codepoints ''fr14 2004 1010 0505 0001 3M02 606''))
           = codepoints ''FR1420041010050500013M02606''"
proof -
  have u: "upper U (remove_spaces (codepoints ''FR1420041010050500013M02606''))
             = codepoints ''FR1420041010050500013M02606''"
          "upper U (remove_spaces (codepoints ''XX12345678'')) = codepoints ''XX12345678''"
          "upper U (remove_spaces (codepoints ''12ABCDEFGH'')) = codepoints ''12ABCDEFGH''"
          "upper U (remove_spaces (codepoints ''fr14 2004 1010 0505 0001 3M02 606''))
             = codepoints ''FR1420041010050500013M02606''"
    by (simp_all add: remove_spaces_def codepoints_def upper_ascii [OF U])
  show "validate_iban U (codepoints ''FR1420041010050500013M02606'') = (True, IbanValid)"
    unfolding validate_iban_def u Let_def
    by (simp add: codepoints_def isdigit_def isalnum_def db_isalnum_def ascii_tables_at [OF U]
          match_two_capitals_def capital_a_to_z_def country_lengths_def)
  show "validate_iban U (codepoints ''XX12345678'') = (True, IbanValid)"
    unfolding validate_iban_def u Let_def
    by (simp add: codepoints_def isdigit_def isalnum_def db_isalnum_def ascii_tables_at [OF U]
          match_two_capitals_def capital_a_to_z_def country_lengths_def)
  show "validate_iban U (codepoints ''12ABCDEFGH'') = (False, IbanBadCountry (codepoints ''12''))"
    unfolding validate_iban_def u Let_def
    by (simp add: codepoints_def match_two_capitals_def capital_a_to_z_def)
  show "validate_iban U (codepoints ''fr14 2004 1010 0505 0001 3M02 606'') = (True, IbanValid)"
    unfolding validate_iban_def u Let_def
    by (simp add: codepoints_def isdigit_def isalnum_def db_isalnum_def ascii_tables_at [OF U]
          match_two_capitals_def capital_a_to_z_def country_lengths_def)
  show "upper U (remove_spaces (codepoints ''fr14 2004 1010 0505 0001 3M02 606''))
           = codepoints ''FR1420041010050500013M02606''"
    by (rule u)
qed

text \<open>
  C4, as the claim states it, fails for a country code of letters that are not A to Z:
  the two capitals U+00C9 followed by 12345 meet each condition of the claim (the
  string is its own upper case, has 7 characters, its characters 1 to 2 are
  alphabetic, 3 to 4 numeric, the rest alphanumeric, and the country code is not in
  the table), and \<open>validate_iban\<close> rejects the string, since the country code is
  matched against \<^verbatim>\<open>[A-Z]{2}\<close>.
\<close>

theorem validate_iban_alphabetic_country_counterexample:
  "\<not> fst (validate_iban latin1_db [201, 201, 49, 50, 51, 52, 53])
   \<and> upper latin1_db (remove_spaces [201, 201, 49, 50, 51, 52, 53]) = [201, 201, 49, 50, 51, 52, 53]
   \<and> 5 \<le> length [201, 201, 49, 50, 51, 52, 53 :: nat]
   \<and> list_all (db_isalpha latin1_db) (take 2 [201, 201, 49, 50, 51, 52, 53])
   \<and> list_all (db_isdigit latin1_db) (take 2 (drop 2 [201, 201, 49, 50, 51, 52, 53]))
   \<and> list_all (db_isalnum latin1_db) (drop 4 [201, 201, 49, 50, 51, 52, 53])
   \<and> map_of country_lengths (take 2 [201, 201, 49, 50, 51, 52, 53]) = None"
  by code_simp

text \<open>
  C4, amended. Whatever the Unicode database, \<open>validate_iban\<close> accepts a string exactly
  when, with the spaces removed and in upper case, it has at least 5 characters,
  characters 1 to 2 are capitals A to Z, characters 3 to 4 are digits (\<^verbatim>\<open>str.isdigit\<close>),
  the rest is alphanumeric (\<^verbatim>\<open>str.isalnum\<close>), and its length is the one of the table
  when the table has its first two characters. For a string of ASCII characters, a
  character of the upper-case string is a capital A to Z exactly when it is
  alphabetic. FR1420041010050500013M02606, of 27 characters, is accepted, the
  10-character XX12345678 with a country code outside the table is accepted, and
  12ABCDEFGH is rejected.
\<close>

theorem validate_iban_accepts_iff:
  "(fst (validate_iban U s) \<longleftrightarrow>
     (let t = upper U (remove_spaces s) in
        5 \<le> length t
        \<and> (\<forall>i. i < 2 \<longrightarrow> capital_a_to_z (t ! i))
        \<and> (\<forall>i. 2 \<le> i \<and> i < 4 \<longrightarrow> db_isdigit U (t ! i))
        \<and> (\<forall>i. 4 \<le> i \<and> i < length t \<longrightarrow> db_isalnum U (t ! i))
        \<and> (\<forall>n. map_of country_lengths (take 2 t) = Some n \<longrightarrow> length t = n)))
   \<and> (ascii_tables U \<and> list_all (\<lambda>c. c < 128) s \<longrightarrow>
        (\<forall>i. i < length (upper U (remove_spaces s)) \<longrightarrow>
           capital_a_to_z (upper U (remove_spaces s) ! i)
             = db_isalpha U (upper U (remove_spaces s) ! i)))
   \<and> (ascii_tables U \<longrightarrow>
        fst (validate_iban U (codepoints ''FR1420041010050500013M02606''))
        \<and> length (codepoints ''FR1420041010050500013M02606'') = 27
        \<and> fst (validate_iban U (codepoints ''XX12345678''))
        \<and> map_of country_lengths (codepoints ''XX'') = None
        \<and> \<not> fst (validate_iban U (codepoints ''12ABCDEFGH'')))"
proof -
  define t where "t = upper U (remove_spaces s)"
  have general: "fst (validate_iban U s) \<longleftrightarrow>
     (let t = upper U (remove_spaces s) in
        5 \<le> length t
        \<and> (\<forall>i. i < 2 \<longrightarrow> capital_a_to_z (t ! i))
        \<and> (\<forall>i. 2 \<le> i \<and> i < 4 \<longrightarrow> db_isdigit U (t ! i))
        \<and> (\<forall>i. 4 \<le> i \<and> i < length t \<longrightarrow> db_isalnum U (t ! i))
        \<and> (\<forall>n. map_of country_lengths (take 2 t) = Some n \<longrightarrow> length t = n))"
  proof (cases "5 \<le> length t")
    case False
    then show ?thesis
      by (simp add: validate_iban_def Let_def t_def [symmetric])
  next
    case True
    then have l: "2 + 2 \<le> length t" and t2: "2 \<le> length t" by auto
    have ne: "take 2 (drop 2 t) \<noteq> []" "drop 4 t \<noteq> []" using True by auto
    note m = match_two_capitals_nth [OF t2]
    show ?thesis
      using True ne
      by (auto simp add: validate_iban_def Let_def t_def [symmetric]
            isdigit_def isalnum_def m list_all_take_drop_nth [OF l] list_all_drop_nth
            split: option.splits)
  qed
  have e4: "map_of country_lengths (codepoints ''XX'') = None"
    by (simp add: country_lengths_def codepoints_def)
  have e5: "length (codepoints ''FR1420041010050500013M02606'') = 27"
    by (simp add: codepoints_def)
  have ex: "ascii_tables U \<longrightarrow>
        fst (validate_iban U (codepoints ''FR1420041010050500013M02606''))
        \<and> length (codepoints ''FR1420041010050500013M02606'') = 27
        \<and> fst (validate_iban U (codepoints ''XX12345678''))
        \<and> map_of country_lengths (codepoints ''XX'') = None
        \<and> \<not> fst (validate_iban U (codepoints ''12ABCDEFGH''))"
    by (simp add: validate_iban_examples(1-3) e4 e5)
  have asc: "ascii_tables U \<and> list_all (\<lambda>c. c < 128) s \<longrightarrow>
        (\<forall>i. i < length (upper U (remove_spaces s)) \<longrightarrow>
           capital_a_to_z (upper U (remove_spaces s) ! i)
             = db_isalpha U (upper U (remove_spaces s) ! i))"
    by (simp add: upper_ascii_alpha)
  from general asc ex show ?thesis by blast
qed

theorem validate_iban_accepts_witness:
  "ascii_tables latin1_db
   \<and> list_all (\<lambda>c. c < 128) (codepoints ''fr14 2004 1010 0505 0001 3M02 606'')
   \<and> validate_iban latin1_db (codepoints ''FR1420041010050500013M02606'') = (True, IbanValid)
   \<and> validate_iban latin1_db (codepoints ''XX12345678'') = (True, IbanValid)
   \<and> validate_iban latin1_db (codepoints ''12ABCDEFGH'') = (False, IbanBadCountry (codepoints ''12''))
   \<and> validate_iban latin1_db (codepoints ''fr14 2004 1010 0505 0001 3M02 606'') = (True, IbanValid)
   \<and> upper latin1_db (remove_spaces (codepoints ''fr14 2004 1010 0505 0001 3M02 606''))
       = codepoints ''FR1420041010050500013M02606''
   \<and> map_of country_lengths (codepoints ''FR'') = Some 27
   \<and> length (upper latin1_db (remove_spaces (codepoints ''fr14 2004 1010 0505 0001 3M02 606''))) = 27
   \<and> db_isdigit latin1_db 178
   \<and> validate_iban latin1_db [88, 88, 49, 178, 65, 66] = (True, IbanValid)"
proof -
  note a = ascii_tables_latin1
  note x = validate_iban_examples [OF a]
  have v: "fst (validate_iban latin1_db (codepoints ''fr14 2004 1010 0505 0001 3M02 606''))"
    by (simp add: x(4))
  from validate_iban_accepts_iff [of latin1_db "codepoints ''fr14 2004 1010 0505 0001 3M02 606''"] v
  have "\<forall>n. map_of country_lengths
              (take 2 (upper latin1_db (remove_spaces (codepoints ''fr14 2004 1010 0505 0001 3M02 606'')))) = Some n
          \<longrightarrow> length (upper latin1_db (remove_spaces (codepoints ''fr14 2004 1010 0505 0001 3M02 606''))) = n"
    unfolding Let_def by blast
  moreover have c: "map_of country_lengths (codepoints ''FR'') = Some 27"
    by (simp add: country_lengths_def codepoints_def)
  moreover have "take 2 (upper latin1_db (remove_spaces (codepoints ''fr14 2004 1010 0505 0001 3M02 606'')))
                   = codepoints ''FR''"
    unfolding x(5) by (simp add: codepoints_def)
  ultimately have "length (upper latin1_db (remove_spaces (codepoints ''fr14 2004 1010 0505 0001 3M02 606''))) = 27"
    by metis
  moreover have "list_all (\<lambda>c. c < 128) (codepoints ''fr14 2004 1010 0505 0001 3M02 606'')"
    by (simp add: codepoints_def)
  moreover have "db_isdigit latin1_db 178" by (simp add: latin1_db_def)
  moreover have "validate_iban latin1_db [88, 88, 49, 178, 65, 66] = (True, IbanValid)"
    by code_simp
  ultimately show ?thesis using a x c by (simp only: simp_thms)
qed

section \<open>Validation of one transaction\<close>

lemma validate_transaction_cascade:
  assumes num: "as_float (series_at row ''Montant'') = Inr m"
  shows "validate_transaction U fmt row rules =
     (if \<not> list_all (\<lambda>col. col \<in> set (series_index row)) required_cols
        then (Inr False, [DbgMissingColumns required_cols])
      else if list_ex (\<lambda>col. isna (series_at row col)) required_cols
        then (Inr False, [DbgNullValues])
      else if \<not> amount_within_limit row rules
        then (Inr False, [DbgAmountExceeds (series_at row ''Montant'') (max_amount_of rules)])
      else if \<not> currency_allowed U fmt row rules
        then (Inr False, [DbgCurrencyNotAllowed
                (upper U (codepoints (strip (str_of fmt (series_at row ''Devise'')))))
                (allowed_currencies_of U rules)])
      else if \<not> iban_ok U fmt row ''IBAN_Emetteur''
        then (Inr False, [DbgIssuerIban
                (snd (validate_iban U (codepoints (str_of fmt (series_at row ''IBAN_Emetteur'')))))])
      else if \<not> iban_ok U fmt row ''IBAN_Beneficiaire''
        then (Inr False, [DbgBeneficiaryIban
                (snd (validate_iban U
                        (codepoints (str_of fmt (series_at row ''IBAN_Beneficiaire'')))))])
      else if \<not> bic_ok U fmt row
        then (Inr False, [DbgBic (snd (validate_bic U
                                        (codepoints (str_of fmt (series_at row ''BIC_SWIFT'')))))])
      else (Inr True, [DbgValid]))"
proof -
  have nn: "\<not> list_ex (\<lambda>col. isna (series_at row col)) required_cols
              \<Longrightarrow> \<not> isna (series_at row ''Montant'')"
    by (simp add: required_cols_def)
  show ?thesis
    using num nn
    unfolding validate_transaction_def Let_def
    by (auto simp: amount_within_limit_def currency_allowed_def iban_ok_def bic_ok_def
             split: prod.splits sum.splits bool.splits)
qed

lemma example_row_evaluation:
  "validate_transaction latin1_db (\<lambda>c. []) (example_row (Fin 15000000)) example_rules
     = (Inr False, [DbgAmountExceeds (Num (Fin 15000000)) (Fin 10000000)])"
  "has_required_fields (example_row (Fin 15000000))"
  "\<not> amount_within_limit (example_row (Fin 15000000)) example_rules"
  "series_at (example_row (Fin 15000000)) ''Montant'' = Num (Fin 15000000)"
  by (simp_all add: validate_transaction_def example_row_def example_rules_def required_cols_def
        series_index_def series_at_def max_amount_of_def allowed_currencies_of_def Let_def
        has_required_fields_def amount_within_limit_def)

text \<open>
  C3, as the claim states it, fails: the function returns the boolean alone (for the
  row with amount 15,000,000 under the maximum 10,000,000 the returned value is
  \<open>False\<close>; the reason is only printed), and on a row whose amount is a string the
  comparison with the maximum raises \<^verbatim>\<open>TypeError\<close>, so that nothing is returned.
\<close>

theorem validate_transaction_returns_pair_counterexample:
  "fst (validate_transaction latin1_db (\<lambda>c. []) (example_row (Fin 15000000)) example_rules) = Inr False
   \<and> validate_transaction latin1_db (\<lambda>c. [])
        (AList.update ''Montant'' (Str ''abc'') (example_row (Fin 15000000))) example_rules
       = (Inl TypeError, [])"
  by (simp add: validate_transaction_def example_row_def example_rules_def required_cols_def
        series_index_def series_at_def max_amount_of_def allowed_currencies_of_def Let_def)

text \<open>
  C3, amended. \<open>validate_transaction\<close> returns a boolean and prints the reason. A row
  that lacks one of the five required columns, or holds a null in one, gives \<open>False\<close>
  with the missing-columns or null-values line. Otherwise, when the amount is not a
  string, the checks run in the order amount limit, currency whitelist, issuer IBAN,
  beneficiary IBAN, BIC: the first check that fails gives \<open>False\<close> and its own line,
  and a row that passes the five gives \<open>True\<close>.
\<close>

theorem validate_transaction_check_order:
  assumes "\<And>s. series_at row ''Montant'' \<noteq> Str s"
  shows "(\<not> has_required_fields row \<longrightarrow>
            fst (validate_transaction U fmt row rules) = Inr False
            \<and> snd (validate_transaction U fmt row rules)
                 \<in> {[DbgMissingColumns required_cols], [DbgNullValues]})
       \<and> (has_required_fields row \<and> \<not> amount_within_limit row rules \<longrightarrow>
            validate_transaction U fmt row rules
              = (Inr False, [DbgAmountExceeds (series_at row ''Montant'') (max_amount_of rules)]))
       \<and> (has_required_fields row \<and> amount_within_limit row rules
            \<and> \<not> currency_allowed U fmt row rules \<longrightarrow>
            fst (validate_transaction U fmt row rules) = Inr False
            \<and> (\<exists>d a. snd (validate_transaction U fmt row rules) = [DbgCurrencyNotAllowed d a]))
       \<and> (has_required_fields row \<and> amount_within_limit row rules
            \<and> currency_allowed U fmt row rules \<and> \<not> iban_ok U fmt row ''IBAN_Emetteur'' \<longrightarrow>
            fst (validate_transaction U fmt row rules) = Inr False
            \<and> (\<exists>msg. snd (validate_transaction U fmt row rules) = [DbgIssuerIban msg]))
       \<and> (has_required_fields row \<and> amount_within_limit row rules
            \<and> currency_allowed U fmt row rules \<and> iban_ok U fmt row ''IBAN_Emetteur''
            \<and> \<not> iban_ok U fmt row ''IBAN_Beneficiaire'' \<longrightarrow>
            fst (validate_transaction U fmt row rules) = Inr False
            \<and> (\<exists>msg. snd (validate_transaction U fmt row rules) = [DbgBeneficiaryIban msg]))
       \<and> (has_required_fields row \<and> amount_within_limit row rules
            \<and> currency_allowed U fmt row rules \<and> iban_ok U fmt row ''IBAN_Emetteur''
            \<and> iban_ok U fmt row ''IBAN_Beneficiaire'' \<and> \<not> bic_ok U fmt row \<longrightarrow>
            fst (validate_transaction U fmt row rules) = Inr False
            \<and> (\<exists>msg. snd (validate_transaction U fmt row rules) = [DbgBic msg]))
       \<and> (has_required_fields row \<and> amount_within_limit row rules
            \<and> currency_allowed U fmt row rules \<and> iban_ok U fmt row ''IBAN_Emetteur''
            \<and> iban_ok U fmt row ''IBAN_Beneficiaire'' \<and> bic_ok U fmt row \<longrightarrow>
            validate_transaction U fmt row rules = (Inr True, [DbgValid]))"
proof -
  obtain m where m: "as_float (series_at row ''Montant'') = Inr m"
    using assms by (cases "series_at row ''Montant''") auto
  show ?thesis
    unfolding validate_transaction_cascade [OF m] by (simp add: has_required_fields_def)
qed

theorem validate_transaction_check_order_witness:
  "has_required_fields (example_row (Fin 15000000))
   \<and> \<not> amount_within_limit (example_row (Fin 15000000)) example_rules
   \<and> validate_transaction latin1_db (\<lambda>c. []) (example_row (Fin 15000000)) example_rules
       = (Inr False, [DbgAmountExceeds (Num (Fin 15000000)) (Fin 10000000)])"
proof -
  have a: "\<And>s. series_at (example_row (Fin 15000000)) ''Montant'' \<noteq> Str s"
    by (simp add: example_row_evaluation(4))
  have "validate_transaction latin1_db (\<lambda>c. []) (example_row (Fin 15000000)) example_rules
          = (Inr False, [DbgAmountExceeds (series_at (example_row (Fin 15000000)) ''Montant'')
                           (max_amount_of example_rules)])"
    using validate_transaction_check_order
            [of "example_row (Fin 15000000)" latin1_db "\<lambda>c. []" example_rules, OF a]
          example_row_evaluation(2,3)
    by blast
  then show ?thesis
    using example_row_evaluation(2,3)
    by (simp add: example_row_evaluation(4) max_amount_of_def example_rules_def)
qed

section \<open>Categorisation\<close>

lemma re_search_from_needs_first_literal:
  "c \<notin> set t \<Longrightarrow> \<not> re_search_from (Lit c # items) prev t"
  by (induction t arbitrary: prev) auto

lemma re_parse_keyword_pattern:
  "re_parse (keyword_pattern mot)
     = Lit backslash # re_parse (CHR ''b'' # re_escape mot @ [backslash, backslash, CHR ''b''])"
  by (simp add: keyword_pattern_def backslash_def)

lemma keyword_pattern_needs_backslash:
  "backslash \<notin> set t \<Longrightarrow> \<not> re_search (keyword_pattern mot) t"
  unfolding re_search_def re_parse_keyword_pattern
  by (rule re_search_from_needs_first_literal)

lemma first_category_needs_backslash:
  "backslash \<notin> set t \<Longrightarrow> first_category cats t = None"
  by (induction cats) (auto simp: keyword_pattern_needs_backslash list_ex_iff)

lemma chr_lower_backslash:
  assumes "chr_lower c = backslash"
  shows "c = backslash"
proof (cases "chr_isupper c")
  case True
  then have "(of_char c :: nat) + 32 < 256" by (auto simp: chr_isupper_def)
  then have "(of_char (chr_lower c) :: nat) = of_char c + 32"
    using True by (simp add: chr_lower_def)
  moreover from assms have "(of_char (chr_lower c) :: nat) = 92"
    by (simp add: backslash_def)
  ultimately show ?thesis using True by (auto simp: chr_isupper_def)
next
  case False
  with assms show ?thesis by (simp add: chr_lower_def)
qed

lemma lower_keeps_backslash_free:
  "backslash \<notin> set l \<Longrightarrow> backslash \<notin> set (lower l)"
  by (auto simp: lower_def dest!: chr_lower_backslash [OF sym])

text \<open>
  The matcher itself finds whole words: with the single-backslash pattern text
  \<^verbatim>\<open>\bsalaire\b\<close> the keyword is found as a word and not inside a longer word.
\<close>

lemma word_boundary_pattern_matches_whole_word:
  "re_search ([backslash, CHR ''b''] @ re_escape ''salaire'' @ [backslash, CHR ''b''])
     ''paiement salaire juin''"
  "\<not> re_search ([backslash, CHR ''b''] @ re_escape ''salaire'' @ [backslash, CHR ''b''])
     ''paiement salaires juin''"
  by code_simp+

text \<open>An empty or absent description gets the catch-all label, whatever the amount.\<close>

lemma categoriser_transaction_empty_description:
  "categoriser_transaction None montant categories = ''autre''"
  "categoriser_transaction (Some []) montant categories = ''autre''"
  by (simp_all add: categoriser_transaction_def)

text \<open>
  C2. The claim's case-insensitive whole-word match is not what the code computes: the
  pattern text has doubled backslashes, so it asks for a literal backslash followed by
  \<open>b\<close> around the keyword. A description that holds no backslash therefore matches no
  keyword of any table, and gets the catch-all label \<open>autre\<close>, whatever the amount;
  so does the description "Paiement SALAIRE juin", which the claim labels \<open>salaire\<close>.
\<close>

theorem categoriser_transaction_without_backslash:
  "backslash \<notin> set l \<Longrightarrow> categoriser_transaction (Some l) montant categories = ''autre''"
  by (simp add: categoriser_transaction_def Let_def first_category_needs_backslash
        lower_keeps_backslash_free)

theorem categoriser_transaction_salaire_witness:
  "backslash \<notin> set ''Paiement SALAIRE juin''
   \<and> categoriser_transaction (Some ''Paiement SALAIRE juin'') (Fin 2500) None = ''autre''
   \<and> categoriser_transaction (Some ''Paiement SALAIRE juin'') (Fin 2500)
        (Some [(''revenus'', [''salaire''])]) = ''autre''"
proof -
  have b: "backslash \<notin> set ''Paiement SALAIRE juin''" by (simp add: backslash_def)
  show ?thesis
    using b categoriser_transaction_without_backslash [OF b, of "Fin 2500" None]
      categoriser_transaction_without_backslash [OF b, of "Fin 2500" "Some [(''revenus'', [''salaire''])]"]
    by blast
qed

section \<open>The ledger of processed files\<close>

lemma save_processed_file_new:
  assumes "relative_to p (project_root s) = Inr rel" "ledger_writable s"
    "str_path rel \<notin> set (processed_files s)"
  shows "save_processed_file s p =
           s\<lparr>processed_files := processed_files s @ [str_path rel],
             ledger := ledger s @ str_path rel @ [CHR 0x0A]\<rparr>"
  using assms by (simp add: save_processed_file_def Let_def)

lemma save_processed_file_known:
  assumes "relative_to p (project_root s) = Inr rel" "str_path rel \<in> set (processed_files s)"
  shows "save_processed_file s p = s"
  using assms by (simp add: save_processed_file_def Let_def)

lemma count_list_append: "count_list (xs @ ys) x = count_list xs x + count_list ys x"
  by (induction xs) auto

text \<open>
  C7, as the claim states it, fails for a path that is not under the project root:
  \<^verbatim>\<open>relative_to\<close> raises, the exception is caught and logged, and nothing is recorded,
  neither in memory nor in the ledger file; \<open>is_processed\<close> then answers \<open>False\<close>.
\<close>

theorem save_processed_file_outside_root_counterexample:
  "save_processed_file example_processor example_outside_file = example_processor
   \<and> \<not> is_processed (save_processed_file example_processor example_outside_file)
          example_outside_file
   \<and> processed_files (save_processed_file example_processor example_outside_file)
       = [''data/input/b.csv'']
   \<and> ledger (save_processed_file example_processor example_outside_file)
       = ''data/input/b.csv'' @ [CHR 0x0A]"
  by (simp add: save_processed_file_def is_processed_def example_processor_def
        example_outside_file_def relative_to_def)

lemma lines_from_line:
  "list_all (\<lambda>c. \<not> is_line_break c) x \<Longrightarrow>
     lines_from cur (x @ CHR 0x0A # rest) = (cur @ x) # lines_from [] rest"
  by (induction x arbitrary: cur) (auto simp: is_line_break_def)

lemma strip_clean: "clean_identifier x \<Longrightarrow> strip x = x"
proof -
  assume c: "clean_identifier x"
  then obtain a y where x: "x = a # y" and a: "\<not> chr_isspace a"
    by (cases x) (auto simp: clean_identifier_def)
  from c have l: "\<not> chr_isspace (last x)" and ne: "x \<noteq> []" by (auto simp: clean_identifier_def)
  have 1: "dropWhile chr_isspace x = x" using x a by simp
  obtain b z where rx: "rev x = b # z" using ne by (cases "rev x") auto
  have "hd (rev x) = last x" using ne by (simp add: hd_rev)
  then have "b = last x" by (simp add: rx)
  then have 2: "dropWhile chr_isspace (rev x) = rev x" using l by (simp add: rx)
  show ?thesis by (simp add: strip_def 1 2)
qed

lemma load_entries: "processed_files (load_processed_files s) = ledger_entries (ledger s)"
  by (simp add: load_processed_files_def ledger_entries_def)

lemma lines_from_append:
  "xs \<noteq> [] \<Longrightarrow> is_line_break (last xs) \<Longrightarrow>
     lines_from cur (xs @ ys) = lines_from cur xs @ lines_from [] ys"
proof (induction xs arbitrary: cur)
  case Nil
  then show ?case by simp
next
  case (Cons c cs)
  show ?case
  proof (cases "cs = []")
    case True
    with Cons.prems show ?thesis by simp
  next
    case False
    with Cons.prems have "is_line_break (last cs)" by simp
    with False Cons.IH show ?thesis by simp
  qed
qed

lemma ledger_entries_append:
  assumes b: "ends_with_line_break content" and c: "clean_identifier x"
  shows "ledger_entries (content @ x @ [CHR 0x0A]) = ledger_entries content @ [x]"
proof -
  have nb: "list_all (\<lambda>c. \<not> is_line_break c) x" and ne: "x \<noteq> []"
    using c by (simp_all add: clean_identifier_def)
  have one: "lines_from [] (x @ [CHR 0x0A]) = [x]"
    using lines_from_line [OF nb, of "[]" "[]"] by simp
  have "file_lines (content @ x @ [CHR 0x0A]) = file_lines content @ [x]"
  proof (cases "content = []")
    case True
    then show ?thesis by (simp add: file_lines_def one)
  next
    case False
    with b have "is_line_break (last content)" by (simp add: ends_with_line_break_def)
    from lines_from_append [OF False this, of "[]" "x @ [CHR 0x0A]"]
    show ?thesis by (simp add: file_lines_def one)
  qed
  then show ?thesis
    using ne by (simp add: ledger_entries_def strip_clean [OF c])
qed

lemma save_processed_file_recorded:
  assumes rel: "relative_to p (project_root s) = Inr rel"
      and w: "ledger_writable s"
      and b: "ends_with_line_break (ledger s)"
      and cid: "clean_identifier (str_path rel)"
      and inv: "set (processed_files s) \<subseteq> set (ledger_entries (ledger s))"
  shows "str_path rel \<in> set (ledger_entries (ledger (save_processed_file s p)))
       \<and> str_path rel \<in> set (processed_files (save_processed_file s p))
       \<and> is_processed (save_processed_file s p) p
       \<and> save_processed_file (save_processed_file s p) p = save_processed_file s p
       \<and> count_list (processed_files (save_processed_file s p)) (str_path rel)
           = max 1 (count_list (processed_files s) (str_path rel))
       \<and> (distinct (processed_files s) \<longrightarrow> distinct (processed_files (save_processed_file s p)))
       \<and> set (processed_files (save_processed_file s p))
            \<subseteq> set (ledger_entries (ledger (save_processed_file s p)))
       \<and> ends_with_line_break (ledger (save_processed_file s p))
       \<and> (processed_files s = ledger_entries (ledger s) \<longrightarrow>
            processed_files (save_processed_file s p)
              = ledger_entries (ledger (save_processed_file s p)))"
proof (cases "str_path rel \<in> set (processed_files s)")
  case True
  then have s: "save_processed_file s p = s" by (rule save_processed_file_known [OF rel])
  have "count_list (processed_files s) (str_path rel) \<noteq> 0"
    using True by (simp add: count_list_0_iff)
  then have c: "max 1 (count_list (processed_files s) (str_path rel))
                  = count_list (processed_files s) (str_path rel)"
    by simp
  have i: "is_processed s p" using True rel by (simp add: is_processed_def)
  from True inv have l: "str_path rel \<in> set (ledger_entries (ledger s))" by blast
  show ?thesis
    unfolding s c using True i l inv b by blast
next
  case False
  define s' where "s' = s\<lparr>processed_files := processed_files s @ [str_path rel],
            ledger := ledger s @ str_path rel @ [CHR 0x0A]\<rparr>"
  have s: "save_processed_file s p = s'"
    unfolding s'_def by (rule save_processed_file_new [OF rel w False])
  have pf: "processed_files s' = processed_files s @ [str_path rel]"
   and lg: "ledger s' = ledger s @ str_path rel @ [CHR 0x0A]"
   and pr: "project_root s' = project_root s"
    by (simp_all add: s'_def)
  have le: "ledger_entries (ledger s') = ledger_entries (ledger s) @ [str_path rel]"
    unfolding lg by (rule ledger_entries_append [OF b cid])
  have mem: "str_path rel \<in> set (processed_files s')" by (simp add: pf)
  have again: "save_processed_file s' p = s'"
    by (rule save_processed_file_known [of _ _ rel]) (simp_all add: rel pr mem)
  have i: "is_processed s' p" using mem rel by (simp add: is_processed_def pr)
  have "count_list (processed_files s) (str_path rel) = 0"
    using False by (simp add: count_list_0_iff)
  then have c: "count_list (processed_files s') (str_path rel)
                  = max 1 (count_list (processed_files s) (str_path rel))"
    by (simp add: pf count_list_append)
  have d: "distinct (processed_files s) \<longrightarrow> distinct (processed_files s')"
    using False by (simp add: pf)
  have l1: "str_path rel \<in> set (ledger_entries (ledger s'))" by (simp add: le)
  have l2: "set (processed_files s') \<subseteq> set (ledger_entries (ledger s'))"
    using inv by (auto simp: pf le)
  have b': "ends_with_line_break (ledger s')"
    by (simp add: lg ends_with_line_break_def is_line_break_def)
  have e: "processed_files s = ledger_entries (ledger s) \<longrightarrow>
            processed_files s' = ledger_entries (ledger s')"
    by (simp add: pf le)
  show ?thesis
    unfolding s again using l1 mem i c d l2 b' e by blast
qed

lemma not_scanned: "is_processed s p \<Longrightarrow> p \<notin> set (files_to_process is_file s entries)"
  by (simp add: files_to_process_def)

text \<open>
  C7, amended. For a path under the project root, with a ledger file that can be
  appended to, whose last line is complete and whose entries (the stripped non-empty
  lines, as a new processor loads them) include each file already in memory, and with
  a relative identifier that is clean (not empty, no whitespace at either end, no
  line break inside): after \<open>save_processed_file\<close> the identifier is an entry of the
  ledger file and is in the processed list, \<open>is_processed\<close> answers \<open>True\<close> and the scan
  leaves the path out; a second call changes nothing, neither in memory nor in the
  file; the identifier occurs once in the list if it occurred at most once before,
  and a list without duplicates stays so; the ledger file still ends with a line
  break and still holds an entry for each file in memory. A processor created
  afterwards, which loads the entries of the file, answers \<open>True\<close> too, and its scan
  leaves the path out; when the list in memory was the list of entries of the file,
  it loads the same list.
\<close>

theorem save_processed_file_records_once:
  assumes rel: "relative_to p (project_root s) = Inr rel"
      and w: "ledger_writable s"
      and b: "ends_with_line_break (ledger s)"
      and cid: "clean_identifier (str_path rel)"
      and inv: "set (processed_files s) \<subseteq> set (ledger_entries (ledger s))"
  shows "str_path rel \<in> set (ledger_entries (ledger (save_processed_file s p)))
       \<and> str_path rel \<in> set (processed_files (save_processed_file s p))
       \<and> is_processed (save_processed_file s p) p
       \<and> p \<notin> set (files_to_process is_file (save_processed_file s p) entries)
       \<and> save_processed_file (save_processed_file s p) p = save_processed_file s p
       \<and> count_list (processed_files (save_processed_file s p)) (str_path rel)
           = max 1 (count_list (processed_files s) (str_path rel))
       \<and> (distinct (processed_files s) \<longrightarrow> distinct (processed_files (save_processed_file s p)))
       \<and> set (processed_files (save_processed_file s p))
            \<subseteq> set (ledger_entries (ledger (save_processed_file s p)))
       \<and> ends_with_line_break (ledger (save_processed_file s p))
       \<and> is_processed (load_processed_files (save_processed_file s p)) p
       \<and> p \<notin> set (files_to_process is_file
                     (load_processed_files (save_processed_file s p)) entries)
       \<and> (processed_files s = ledger_entries (ledger s) \<longrightarrow>
            processed_files (load_processed_files (save_processed_file s p))
              = processed_files (save_processed_file s p))"
proof -
  note m = save_processed_file_recorded [OF rel w b cid inv]
  have scan: "p \<notin> set (files_to_process is_file (save_processed_file s p) entries)"
    using m by (simp add: not_scanned)
  have root: "project_root (save_processed_file s p) = project_root s"
    by (simp add: save_processed_file_def rel Let_def)
  have r: "project_root (load_processed_files (save_processed_file s p)) = project_root s"
    by (simp add: load_processed_files_def root)
  have i: "is_processed (load_processed_files (save_processed_file s p)) p"
    using m by (simp add: is_processed_def r rel load_entries)
  then have scan2: "p \<notin> set (files_to_process is_file
                     (load_processed_files (save_processed_file s p)) entries)"
    by (rule not_scanned)
  have e: "processed_files s = ledger_entries (ledger s) \<longrightarrow>
            processed_files (load_processed_files (save_processed_file s p))
              = processed_files (save_processed_file s p)"
    using m by (simp add: load_entries)
  from m scan i scan2 e show ?thesis by blast
qed

theorem save_processed_file_records_once_witness:
  "relative_to example_input_file (project_root example_processor)
      = Inr \<lparr>anchor = [], parts = [''data'', ''input'', ''a.csv'']\<rparr>
   \<and> ledger_writable example_processor
   \<and> ends_with_line_break (ledger example_processor)
   \<and> clean_identifier ''data/input/a.csv''
   \<and> ledger_entries (ledger example_processor) = [''data/input/b.csv'']
   \<and> processed_files (save_processed_file example_processor example_input_file)
       = [''data/input/b.csv'', ''data/input/a.csv'']
   \<and> ledger (save_processed_file example_processor example_input_file)
       = ''data/input/b.csv'' @ [CHR 0x0A] @ ''data/input/a.csv'' @ [CHR 0x0A]
   \<and> is_processed (save_processed_file example_processor example_input_file) example_input_file
   \<and> save_processed_file (save_processed_file example_processor example_input_file)
        example_input_file
       = save_processed_file example_processor example_input_file
   \<and> processed_files (load_processed_files
         (save_processed_file example_processor example_input_file))
       = [''data/input/b.csv'', ''data/input/a.csv'']
   \<and> is_processed (load_processed_files
         (save_processed_file example_processor example_input_file)) example_input_file
   \<and> files_to_process (\<lambda>f. True)
         (load_processed_files (save_processed_file example_processor example_input_file))
         [example_input_file] = []"
proof -
  have rel: "relative_to example_input_file (project_root example_processor)
               = Inr \<lparr>anchor = [], parts = [''data'', ''input'', ''a.csv'']\<rparr>"
    by (simp add: relative_to_def example_input_file_def example_processor_def)
  have w: "ledger_writable example_processor" by (simp add: example_processor_def)
  have b: "ends_with_line_break (ledger example_processor)"
    by (simp add: example_processor_def ends_with_line_break_def is_line_break_def)
  have sp: "str_path \<lparr>anchor = [], parts = [''data'', ''input'', ''a.csv'']\<rparr> = ''data/input/a.csv''"
    by (simp add: str_path_def)
  have cid0: "clean_identifier ''data/input/a.csv''"
    by (simp add: clean_identifier_def chr_isspace_def is_line_break_def)
  then have cid: "clean_identifier (str_path \<lparr>anchor = [], parts = [''data'', ''input'', ''a.csv'']\<rparr>)"
    by (simp only: sp)
  have cb: "clean_identifier ''data/input/b.csv''"
    by (simp add: clean_identifier_def chr_isspace_def is_line_break_def)
  have e0: "ends_with_line_break []" by (simp add: ends_with_line_break_def)
  have n0: "ledger_entries [] = []" by (simp add: ledger_entries_def file_lines_def)
  have lx: "ledger example_processor = [] @ ''data/input/b.csv'' @ [CHR 0x0A]"
    by (simp add: example_processor_def)
  have le: "ledger_entries (ledger example_processor) = [''data/input/b.csv'']"
    unfolding lx ledger_entries_append [OF e0 cb] n0 by (rule append_Nil)
  have inv: "set (processed_files example_processor)
               \<subseteq> set (ledger_entries (ledger example_processor))"
    unfolding le by (simp add: example_processor_def)
  have eq: "processed_files example_processor = ledger_entries (ledger example_processor)"
    unfolding le by (simp add: example_processor_def)
  have v: "save_processed_file example_processor example_input_file
             = example_processor\<lparr>processed_files := [''data/input/b.csv'', ''data/input/a.csv''],
                 ledger := ''data/input/b.csv'' @ [CHR 0x0A] @ ''data/input/a.csv'' @ [CHR 0x0A]\<rparr>"
    by (simp add: save_processed_file_def relative_to_def example_input_file_def
          example_processor_def str_path_def Let_def)
  have pf: "processed_files (save_processed_file example_processor example_input_file)
              = [''data/input/b.csv'', ''data/input/a.csv'']"
    and lg: "ledger (save_processed_file example_processor example_input_file)
              = ''data/input/b.csv'' @ [CHR 0x0A] @ ''data/input/a.csv'' @ [CHR 0x0A]"
    by (simp_all add: v)
  note t = save_processed_file_records_once [OF rel w b cid inv, of "\<lambda>f. True" "[example_input_file]"]
  from t eq
  have l0: "processed_files (load_processed_files
             (save_processed_file example_processor example_input_file))
           = processed_files (save_processed_file example_processor example_input_file)"
    by blast
  then have l: "processed_files (load_processed_files
             (save_processed_file example_processor example_input_file))
           = [''data/input/b.csv'', ''data/input/a.csv'']"
    by (simp only: pf)
  from t have n: "example_input_file \<notin> set (files_to_process (\<lambda>f. True)
              (load_processed_files (save_processed_file example_processor example_input_file))
              [example_input_file])"
    by blast
  from n have e: "files_to_process (\<lambda>f. True)
         (load_processed_files (save_processed_file example_processor example_input_file))
         [example_input_file] = []"
    by (simp add: files_to_process_def split: if_splits)
  from t have i: "is_processed (save_processed_file example_processor example_input_file)
                    example_input_file"
    and i2: "is_processed (load_processed_files
         (save_processed_file example_processor example_input_file)) example_input_file"
    and a: "save_processed_file (save_processed_file example_processor example_input_file)
              example_input_file
            = save_processed_file example_processor example_input_file"
    by blast+
  from rel w b cid0 le pf lg i a l i2 e show ?thesis by (simp only: simp_thms)
qed

section \<open>Anomaly detection\<close>

subsection \<open>Rounding to a double\<close>

lemma floor_log2:
  assumes "2 powi l \<le> \<bar>x\<bar>" "\<bar>x\<bar> < 2 powi (l + 1)"
  shows "\<lfloor>log 2 \<bar>x\<bar>\<rfloor> = l"
proof -
  have pos: "0 < \<bar>x\<bar>" using assms(1) by (smt (verit) zero_less_power_int)
  have p: "2 powr (of_int k) = (2::real) powi k" for k
    by (simp add: powr_real_of_int')
  have "of_int l \<le> log 2 \<bar>x\<bar>"
    using assms(1) pos by (simp add: le_log_iff p)
  moreover have "log 2 \<bar>x\<bar> < of_int l + 1"
    using assms(2) pos p [of "l + 1"] by (simp add: log_less_iff)
  ultimately show ?thesis by (simp add: floor_unique)
qed

lemma round_half_even_int: "round_half_even (of_int n) = n"
  by (simp add: round_half_even_def)

text \<open>The rounding of a real whose binary exponent is known.\<close>

lemma round_double_normal:
  assumes "2 powi (e + 52) \<le> \<bar>x\<bar>" "\<bar>x\<bar> < 2 powi (e + 53)" "- 1074 \<le> e"
  shows "round_double x =
           (if 2 ^ 1024 \<le> \<bar>of_int (round_half_even (x / 2 powi e)) * (2::real) powi e\<bar>
              then inf_of_sign (sgn x)
            else Fin (of_int (round_half_even (x / 2 powi e)) * 2 powi e))"
proof -
  have "0 < \<bar>x\<bar>" using assms(1) by (smt (verit) zero_less_power_int)
  then have nz: "x \<noteq> 0" by simp
  have "\<lfloor>log 2 \<bar>x\<bar>\<rfloor> = e + 52"
    using assms(1,2) by (intro floor_log2) (simp_all add: add.commute add.left_commute)
  then have "double_exponent x = e" using assms(3) by (simp add: double_exponent_def)
  then show ?thesis using nz unfolding round_double_def Let_def by (simp only: if_False)
qed

text \<open>
  A real that is a double is its own rounding: an integer of less than 53 bits over a
  power of two that is not below the last bit of the format.
\<close>

lemma round_double_dyadic:
  assumes m: "\<bar>m\<bar> < 2 ^ 53" and k: "k \<le> 1074"
  shows "round_double (of_int m / 2 ^ k) = Fin (of_int m / 2 ^ k)"
proof (cases "m = 0")
  case True
  then show ?thesis by (simp add: round_double_def)
next
  case False
  define x :: real where "x = of_int m / 2 ^ k"
  define e where "e = double_exponent x"
  have nz: "x \<noteq> 0" using False by (simp add: x_def)
  have "\<bar>x\<bar> < 2 ^ 53 / 2 ^ k"
  proof -
    have "\<bar>of_int m :: real\<bar> < 2 ^ 53"
      using m by (metis of_int_abs of_int_less_numeral_power_cancel_iff)
    then show ?thesis by (simp add: x_def abs_divide divide_strict_right_mono)
  qed
  also have "\<dots> = 2 powr (53 - real k)"
    by (simp add: powr_diff powr_realpow)
  finally have "log 2 \<bar>x\<bar> < 53 - real k"
    using nz by (simp add: log_less_iff)
  then have "\<lfloor>log 2 \<bar>x\<bar>\<rfloor> < 53 - int k"
    by (simp add: floor_less_iff)
  then have e: "e \<le> - int k" using k by (simp add: e_def double_exponent_def)
  define j where "j = nat (- int k - e)"
  have j: "int j = - int k - e" using e by (simp add: j_def)
  have "x / 2 powi e = of_int m * (2 powi (- int k) * 2 powi (- e))"
    by (simp add: x_def power_int_minus field_simps)
  also have "2 powi (- int k) * 2 powi (- e) = (2::real) powi (- int k - e)"
    by (simp add: power_int_add [symmetric])
  also have "\<dots> = 2 ^ j" unfolding j [symmetric] by simp
  finally have q: "x / 2 powi e = of_int (m * 2 ^ j)" by simp
  have y: "of_int (round_half_even (x / 2 powi e)) * 2 powi e = x"
    unfolding q round_half_even_int using q by (simp add: field_simps)
  have "\<bar>x\<bar> < 2 ^ 1024"
  proof -
    have "(1::real) \<le> 2 ^ k" by (rule one_le_power) simp
    then have "\<bar>of_int m :: real\<bar> * 1 \<le> \<bar>of_int m\<bar> * 2 ^ k"
      by (intro mult_left_mono) simp_all
    then have "\<bar>x\<bar> \<le> \<bar>of_int m\<bar>" by (simp add: x_def abs_divide field_simps)
    also have "\<dots> < 2 ^ 53"
      using m by (metis of_int_abs of_int_less_numeral_power_cancel_iff)
    also have "\<dots> \<le> (2::real) ^ 1024" by (intro power_increasing) simp_all
    finally show ?thesis .
  qed
  then have no: "\<not> 2 ^ 1024 \<le> \<bar>x\<bar>" by simp
  show ?thesis
    unfolding x_def [symmetric] round_double_def Let_def e_def [symmetric] y
    using nz no by (simp only: if_False)
qed

lemma round_double_scaled:
  assumes "x * 2 ^ k \<in> \<int>" "\<bar>x * 2 ^ k\<bar> < 2 ^ 53" "k \<le> 1074"
  shows "round_double x = Fin x"
proof -
  from assms(1) obtain m :: int where m: "x * 2 ^ k = of_int m" by (auto elim: Ints_cases)
  then have x: "x = of_int m / 2 ^ k" by (simp add: field_simps)
  have "\<bar>of_int m :: real\<bar> < 2 ^ 53" using assms(2) m by simp
  then have "\<bar>m\<bar> < 2 ^ 53" by (metis of_int_abs of_int_less_numeral_power_cancel_iff)
  from round_double_dyadic [OF this assms(3)] show ?thesis by (simp add: x)
qed

lemma round_double_int:
  assumes "x \<in> \<int>" "\<bar>x\<bar> < 2 ^ 53"
  shows "round_double x = Fin x"
  using round_double_scaled [of x 0] assms by simp

lemma round_double_minus_half: "round_double (- (1 / 2)) = Fin (- (1 / 2))"
  by (rule round_double_scaled [of _ 1]) simp_all

lemma power_int_neg_numeral: "(2::real) powi (- numeral n) = 1 / 2 ^ numeral n"
  by (simp add: power_int_minus field_simps)

subsection \<open>Columns of finite numbers and nulls\<close>

lemma as_floats_Inr: "as_floats cs = Inr xs \<Longrightarrow> xs = map float_of cs"
  by (induction cs arbitrary: xs) (auto simp: float_of_def split: sum.splits)

lemma as_floats_finite_or_null:
  "list_all finite_or_null cs \<Longrightarrow> as_floats cs = Inr (map float_of cs)"
  by (induction cs) (auto simp: float_of_def finite_or_null_def split: cell.splits pyfloat.splits)

lemma not_all_null_finite:
  "list_all finite_or_null cs \<Longrightarrow> \<not> list_all isna cs \<Longrightarrow> finite_values cs \<noteq> []"
  by (induction cs rule: finite_values.induct) (auto simp: finite_or_null_def)

lemma finite_values_mem: "Num (Fin v) \<in> set cs \<Longrightarrow> v \<in> set (finite_values cs)"
  by (induction cs rule: finite_values.induct) auto

lemma population_stddev_nonneg: "0 \<le> population_stddev vs"
  unfolding population_stddev_def
  by (intro real_sqrt_ge_zero divide_nonneg_nonneg sum_list_nonneg) auto

text \<open>A standard deviation of zero: every value is the mean.\<close>

lemma population_stddev_zero:
  assumes "population_stddev vs = 0" "v \<in> set vs"
  shows "v = population_mean vs"
proof -
  let ?m = "population_mean vs"
  let ?sq = "map (\<lambda>v. (v - ?m)\<^sup>2) vs"
  have len: "real (length vs) \<noteq> 0" using assms(2) by (cases vs) auto
  from assms(1) have "sum_list ?sq / real (length vs) = 0"
    by (simp add: population_stddev_def)
  with len have "sum_list ?sq = 0" by simp
  moreover have "(sum_list ?sq = 0) = (\<forall>x\<in>set ?sq. x = 0)"
    by (rule sum_list_nonneg_eq_0_iff) auto
  ultimately have "\<forall>x\<in>set ?sq. x = 0" by blast
  with assms(2) have "(v - ?m)\<^sup>2 = 0" by auto
  then show ?thesis by simp
qed

text \<open>
  The z-score of one cell when the library computes without rounding error, and its
  comparison against the rule of the specification. With a standard deviation of zero
  the quotient is \<open>0 / 0\<close>, that is NaN, and no comparison with NaN holds.
\<close>

lemma zscore_exact:
  assumes fn: "finite_or_null c"
      and mem: "c \<in> set cs"
      and ex: "computes_exactly L cs"
  shows "zscore_of L (map float_of cs) (float_of c)
         = (case c of
              Num (Fin v) \<Rightarrow>
                if population_stddev (finite_values cs) = 0 then NaN
                else Fin ((v - population_mean (finite_values cs))
                            / population_stddev (finite_values cs))
            | _ \<Rightarrow> NaN)"
proof (cases "\<exists>v. c = Num (Fin v)")
  case False
  with fn have "float_of c = NaN"
    by (auto simp: finite_or_null_def float_of_def split: cell.splits pyfloat.splits)
  with False fn show ?thesis
    by (auto simp: zscore_of_def fsub_def finite_or_null_def split: cell.splits pyfloat.splits)
next
  case True
  then obtain v where c: "c = Num (Fin v)" by blast
  let ?vs = "finite_values cs"
  have v: "v \<in> set ?vs" using mem c by (simp add: finite_values_mem)
  from ex have m: "lib_mean L (map float_of cs) = Fin (population_mean ?vs)"
    and s: "lib_std0 L (map float_of cs) = Fin (population_stddev ?vs)"
    and r: "lib_round L (v - population_mean ?vs) = Fin (v - population_mean ?vs)"
    and q: "population_stddev ?vs \<noteq> 0 \<Longrightarrow>
              lib_round L ((v - population_mean ?vs) / population_stddev ?vs)
                = Fin ((v - population_mean ?vs) / population_stddev ?vs)"
    using v by (auto simp: computes_exactly_def)
  have d: "fsub (lib_round L) (Fin v) (Fin (population_mean ?vs)) = Fin (v - population_mean ?vs)"
    by (simp add: fsub_def r)
  show ?thesis
  proof (cases "population_stddev ?vs = 0")
    case True
    then have "v = population_mean ?vs" using v by (rule population_stddev_zero)
    with d have "fsub (lib_round L) (Fin v) (Fin (population_mean ?vs)) = Fin 0" by simp
    then have "zscore_of L (map float_of cs) (float_of c) = NaN"
      by (simp add: c float_of_def zscore_of_def m s True inf_of_sign_def)
    with True show ?thesis by (simp add: c)
  next
    case False
    then show ?thesis
      by (simp add: c float_of_def zscore_of_def m s d q)
  qed
qed

lemma zscore_flag:
  assumes fn: "finite_or_null c"
      and mem: "c \<in> set cs"
      and ex: "computes_exactly L cs"
  shows "fgt (fabs (zscore_of L (map float_of cs) (float_of c))) (Fin threshold)
         = (case c of
              Num (Fin v) \<Rightarrow>
                population_stddev (finite_values cs) \<noteq> 0
                \<and> \<bar>v - population_mean (finite_values cs)\<bar> / population_stddev (finite_values cs)
                    > threshold
            | _ \<Rightarrow> False)"
proof (cases "\<exists>v. c = Num (Fin v)")
  case False
  with fn show ?thesis
    unfolding zscore_exact [OF fn mem ex]
    by (auto simp: finite_or_null_def split: cell.splits pyfloat.splits)
next
  case True
  then obtain v where c: "c = Num (Fin v)" by blast
  let ?vs = "finite_values cs"
  show ?thesis
  proof (cases "population_stddev ?vs = 0")
    case True
    then show ?thesis
      unfolding zscore_exact [OF fn mem ex] by (simp add: c)
  next
    case False
    with population_stddev_nonneg [of ?vs] have pos: "0 < population_stddev ?vs" by simp
    then have "\<bar>(v - population_mean ?vs) / population_stddev ?vs\<bar>
                 = \<bar>v - population_mean ?vs\<bar> / population_stddev ?vs"
      by (simp add: abs_divide)
    with False pos show ?thesis
      unfolding zscore_exact [OF fn mem ex] by (simp add: c)
  qed
qed

subsection \<open>The three paths of \<open>detect_anomalies\<close>\<close>

lemma detect_anomalies_degenerate:
  assumes "col \<notin> set (columns (h ! r)) \<or> list_all isna (column_values (h ! r) col)"
  shows "detect_anomalies L h r col thr = (Inr (length h), h @ [empty_frame])"
  using assms by (auto simp: detect_anomalies_def alloc_def)

lemma detect_anomalies_error:
  assumes "col \<in> set (columns (h ! r))" "\<not> list_all isna (column_values (h ! r) col)"
      and "as_floats (column_values (h ! r) col) = Inl e"
  shows "detect_anomalies L h r col thr = (Inl e, h @ [h ! r])"
  using assms by (simp add: detect_anomalies_def alloc_def)

lemma detect_anomalies_scored:
  assumes "col \<in> set (columns (h ! r))" "\<not> list_all isna (column_values (h ! r) col)"
      and "as_floats (column_values (h ! r) col) = Inr xs"
  shows "detect_anomalies L h r col thr =
           (Inr (length h + 2),
            h @ [set_column ''zscore'' (map (\<lambda>x. Num (zscore_of L xs x)) xs) (h ! r),
                 select_rows (zscore_exceeds thr)
                   (set_column ''zscore'' (map (\<lambda>x. Num (zscore_of L xs x)) xs) (h ! r)),
                 drop_column ''zscore'' (select_rows (zscore_exceeds thr)
                   (set_column ''zscore'' (map (\<lambda>x. Num (zscore_of L xs x)) xs) (h ! r)))])"
  using assms
  by (simp add: detect_anomalies_def alloc_def Let_def nth_append zscore_of_def comp_def)

lemma zip_map_self: "zip xs (map f xs) = map (\<lambda>x. (x, f x)) xs"
  by (induction xs) auto

lemma series_at_update: "series_at (AList.update k v row) k = v"
  by (simp add: series_at_def update_conv')

lemma zscore_exceeds_update:
  "zscore_exceeds thr (AList.update ''zscore'' (Num z) row) = fgt (fabs z) (Fin thr)"
  by (simp add: zscore_exceeds_def series_at_update)

lemma scored_values:
  "column_values
     (set_column ''zscore'' (map (\<lambda>x. Num (Z x)) (map float_of (column_values df col))) df)
     ''zscore''
   = map (\<lambda>c. Num (Z (float_of c))) (column_values df col)"
proof -
  have vals: "map (\<lambda>x. Num (Z x)) (map float_of (column_values df col))
                = map (\<lambda>ir. Num (Z (float_of (series_at (snd ir) col)))) (rows df)"
    by (simp add: column_values_def case_prod_unfold)
  show ?thesis
    unfolding vals
    by (simp add: column_values_def set_column_def zip_map_self comp_def case_prod_unfold
          series_at_update)
qed

lemma scored_rows:
  "rows (drop_column ''zscore'' (select_rows (zscore_exceeds thr)
      (set_column ''zscore'' (map (\<lambda>x. Num (Z x)) (map float_of (column_values df col))) df)))
   = map (\<lambda>(i, row). (i, AList.delete ''zscore'' row))
       (filter (\<lambda>(i, row). fgt (fabs (Z (float_of (series_at row col)))) (Fin thr)) (rows df))"
proof -
  have vals: "map (\<lambda>x. Num (Z x)) (map float_of (column_values df col))
                = map (\<lambda>ir. Num (Z (float_of (series_at (snd ir) col)))) (rows df)"
    by (simp add: column_values_def case_prod_unfold)
  show ?thesis
    unfolding vals
    by (simp add: drop_column_def select_rows_def set_column_def zip_map_self filter_map comp_def
          case_prod_unfold zscore_exceeds_update delete_update_same)
qed

lemma scored_columns:
  "columns (drop_column ''zscore'' (select_rows keep (set_column ''zscore'' vals df)))
     = removeAll ''zscore'' (columns df)"
  by (simp add: drop_column_def select_rows_def set_column_def)

text \<open>
  The result on the path that computes z-scores, for any numeric column and any
  library: the reference returned, the frames that existed before, the z-score column
  of the working copy, and the columns and rows of the result.
\<close>

lemma detect_anomalies_result:
  assumes present: "col \<in> set (columns (h ! r))"
      and nn: "\<not> list_all isna (column_values (h ! r) col)"
      and fl: "as_floats (column_values (h ! r) col) = Inr xs"
  shows "fst (detect_anomalies L h r col thr) = Inr (length h + 2)"
    and "take (length h) (snd (detect_anomalies L h r col thr)) = h"
    and "columns (snd (detect_anomalies L h r col thr) ! (length h + 2))
           = removeAll ''zscore'' (columns (h ! r))"
    and "rows (snd (detect_anomalies L h r col thr) ! (length h + 2))
           = map (\<lambda>(i, row). (i, AList.delete ''zscore'' row))
               (filter (\<lambda>(i, row). fgt (fabs (zscore_of L xs (float_of (series_at row col)))) (Fin thr))
                  (rows (h ! r)))"
    and "column_values (snd (detect_anomalies L h r col thr) ! length h) ''zscore''
           = map (\<lambda>c. Num (zscore_of L xs (float_of c))) (column_values (h ! r) col)"
proof -
  have xs: "xs = map float_of (column_values (h ! r) col)" by (rule as_floats_Inr [OF fl])
  define sc where "sc = set_column ''zscore'' (map (\<lambda>x. Num (zscore_of L xs x)) xs) (h ! r)"
  define res where "res = drop_column ''zscore'' (select_rows (zscore_exceeds thr) sc)"
  define h' where "h' = h @ [sc, select_rows (zscore_exceeds thr) sc, res]"
  have d: "detect_anomalies L h r col thr = (Inr (length h + 2), h')"
    unfolding h'_def res_def sc_def by (rule detect_anomalies_scored [OF present nn fl])
  have n: "h' ! (length h + 2) = res" by (simp add: h'_def nth_append)
  have n0: "h' ! length h = sc" by (simp add: h'_def nth_append)
  have rws: "rows res = map (\<lambda>(i, row). (i, AList.delete ''zscore'' row))
               (filter (\<lambda>(i, row). fgt (fabs (zscore_of L xs (float_of (series_at row col)))) (Fin thr))
                  (rows (h ! r)))"
    unfolding res_def sc_def
    by (subst (2) xs, rule scored_rows)
  have cols: "columns res = removeAll ''zscore'' (columns (h ! r))"
    unfolding res_def sc_def by (rule scored_columns)
  have zs: "column_values sc ''zscore''
              = map (\<lambda>c. Num (zscore_of L xs (float_of c))) (column_values (h ! r) col)"
    unfolding sc_def
    by (subst (2) xs, rule scored_values)
  show "fst (detect_anomalies L h r col thr) = Inr (length h + 2)" by (simp add: d)
  show "take (length h) (snd (detect_anomalies L h r col thr)) = h" by (simp add: d h'_def)
  show "columns (snd (detect_anomalies L h r col thr) ! (length h + 2))
           = removeAll ''zscore'' (columns (h ! r))"
    by (simp only: d snd_conv n cols)
  show "rows (snd (detect_anomalies L h r col thr) ! (length h + 2))
           = map (\<lambda>(i, row). (i, AList.delete ''zscore'' row))
               (filter (\<lambda>(i, row). fgt (fabs (zscore_of L xs (float_of (series_at row col)))) (Fin thr))
                  (rows (h ! r)))"
    by (simp only: d snd_conv n rws)
  show "column_values (snd (detect_anomalies L h r col thr) ! length h) ''zscore''
           = map (\<lambda>c. Num (zscore_of L xs (float_of c))) (column_values (h ! r) col)"
    by (simp only: d snd_conv n0 zs)
qed

text \<open>
  The same for a column of finite numbers and nulls on which the library computes
  without rounding error, by the rule of the specification.
\<close>

lemma detect_anomalies_finite:
  assumes present: "col \<in> set (columns (h ! r))"
      and nn: "\<not> list_all isna (column_values (h ! r) col)"
      and fin: "list_all finite_or_null (column_values (h ! r) col)"
      and ex: "computes_exactly L (column_values (h ! r) col)"
  shows "fst (detect_anomalies L h r col thr) = Inr (length h + 2)"
    and "rows (snd (detect_anomalies L h r col thr) ! (length h + 2))
           = map (\<lambda>(i, row). (i, AList.delete ''zscore'' row))
               (filter (\<lambda>(i, row). flagged col thr (finite_values (column_values (h ! r) col)) row)
                  (rows (h ! r)))"
proof -
  let ?cs = "column_values (h ! r) col"
  let ?vs = "finite_values ?cs"
  let ?xs = "map float_of ?cs"
  have fl: "as_floats ?cs = Inr ?xs" by (rule as_floats_finite_or_null [OF fin])
  have flag: "fgt (fabs (zscore_of L ?xs (float_of (series_at row col)))) (Fin thr)
                = flagged col thr ?vs row"
    if "(i, row) \<in> set (rows (h ! r))" for i row
  proof -
    have mem: "series_at row col \<in> set ?cs"
      using that by (force simp: column_values_def)
    with fin have "finite_or_null (series_at row col)" by (simp add: list_all_iff)
    from zscore_flag [OF this mem ex] show ?thesis
      by (simp add: flagged_def)
  qed
  have filt: "filter (\<lambda>(i, row). fgt (fabs (zscore_of L ?xs (float_of (series_at row col)))) (Fin thr))
                (rows (h ! r))
            = filter (\<lambda>(i, row). flagged col thr ?vs row) (rows (h ! r))"
    by (rule filter_cong) (auto simp: flag)
  show "fst (detect_anomalies L h r col thr) = Inr (length h + 2)"
    by (rule detect_anomalies_result(1) [OF present nn fl])
  show "rows (snd (detect_anomalies L h r col thr) ! (length h + 2))
           = map (\<lambda>(i, row). (i, AList.delete ''zscore'' row))
               (filter (\<lambda>(i, row). flagged col thr ?vs row) (rows (h ! r)))"
    unfolding detect_anomalies_result(4) [OF present nn fl] filt by (rule refl)
qed

text \<open>With a standard deviation of zero, computed without error, every z-score is NaN.\<close>

lemma detect_anomalies_zero_deviation:
  assumes present: "col \<in> set (columns (h ! r))"
      and nn: "\<not> list_all isna (column_values (h ! r) col)"
      and fin: "list_all finite_or_null (column_values (h ! r) col)"
      and ex: "computes_exactly L (column_values (h ! r) col)"
      and z: "population_stddev (finite_values (column_values (h ! r) col)) = 0"
  shows "column_values (snd (detect_anomalies L h r col thr) ! length h) ''zscore''
           = map (\<lambda>c. Num NaN) (column_values (h ! r) col)"
    and "rows (snd (detect_anomalies L h r col thr) ! (length h + 2)) = []"
proof -
  let ?cs = "column_values (h ! r) col"
  have fl: "as_floats ?cs = Inr (map float_of ?cs)" by (rule as_floats_finite_or_null [OF fin])
  have "zscore_of L (map float_of ?cs) (float_of c) = NaN" if "c \<in> set ?cs" for c
  proof -
    from fin that have "finite_or_null c" by (simp add: list_all_iff)
    from zscore_exact [OF this that ex] show ?thesis
      by (simp add: z split: cell.splits pyfloat.splits)
  qed
  then show "column_values (snd (detect_anomalies L h r col thr) ! length h) ''zscore''
           = map (\<lambda>c. Num NaN) ?cs"
    unfolding detect_anomalies_result(5) [OF present nn fl] by simp
  have "filter (\<lambda>(i, row). flagged col thr (finite_values ?cs) row) (rows (h ! r)) = []"
  proof -
    have "\<not> flagged col thr (finite_values ?cs) row" for row
      by (simp add: flagged_def z split: cell.splits pyfloat.splits)
    then show ?thesis by (simp add: filter_empty_conv)
  qed
  then show "rows (snd (detect_anomalies L h r col thr) ! (length h + 2)) = []"
    unfolding detect_anomalies_finite(2) [OF present nn fin ex] by simp
qed

subsection \<open>The example amounts\<close>

lemma example_amounts_column:
  "rows example_amounts =
     [(0, [(''Montant'', Num (Fin 10))]), (1, [(''Montant'', Num (Fin 10))]),
      (2, [(''Montant'', Num (Fin 10))]), (3, [(''Montant'', Num (Fin 10))]),
      (4, [(''Montant'', Num (Fin 1000))])]"
  "finite_values (column_values example_amounts ''Montant'') = [10, 10, 10, 10, 1000]"
  "''Montant'' \<in> set (columns example_amounts)"
  "\<not> list_all isna (column_values example_amounts ''Montant'')"
  "list_all finite_or_null (column_values example_amounts ''Montant'')"
  "map float_of (column_values example_amounts ''Montant'')
     = [Fin 10, Fin 10, Fin 10, Fin 10, Fin 1000]"
  by (simp_all add: example_amounts_def amounts_frame_def column_values_def series_at_def
        finite_or_null_def float_of_def enumerate_eq_zip upt_rec)

lemma example_mean: "population_mean [10, 10, 10, 10, 1000] = 208"
  by (simp add: population_mean_def)

lemma example_stddev: "population_stddev [10, 10, 10, 10, 1000] = 396"
proof -
  have "sum_list (map (\<lambda>v. (v - 208)\<^sup>2) [10, 10, 10, 10, 1000 :: real])
          / real (length [10, 10, 10, 10, 1000 :: real]) = 396\<^sup>2"
    by (simp add: power2_eq_square)
  then show ?thesis
    unfolding population_stddev_def example_mean by (simp only: real_sqrt_abs)
qed

text \<open>
  On the amounts 10, 10, 10, 10, 1000 the library of doubles computes without rounding
  error: the sums, the mean 208, the deviations, their squares, the variance 156816,
  its root 396 and the z-scores \<open>2\<close> and \<open>- 1 / 2\<close> are doubles.
\<close>

lemma example_mean_double:
  "sequential_mean round_double [Fin 10, Fin 10, Fin 10, Fin 10, Fin 1000] = Fin 208"
  by (simp add: sequential_mean_def fsum_def round_double_int)

lemma sqrt_156816: "sqrt 156816 = 396"
  by (rule real_sqrt_unique) simp_all

lemma example_std_double:
  "sequential_std0 round_double [Fin 10, Fin 10, Fin 10, Fin 10, Fin 1000] = Fin 396"
  by (simp add: sequential_std0_def example_mean_double fsum_def fsub_def round_double_int
        sqrt_156816)

lemma example_computes_exactly:
  "computes_exactly double_library (column_values example_amounts ''Montant'')"
  unfolding computes_exactly_def example_amounts_column(2,6) example_mean example_stddev
  by (simp add: double_library_def example_mean_double example_std_double round_double_int
        round_double_minus_half)

text \<open>
  The z-score of the amount 1000 is \<open>(1000 - 208) / 396 = 2\<close>, that of an amount 10 is
  \<open>- 1 / 2\<close>.
\<close>

lemma example_flagged:
  "1 / 2 \<le> thr \<Longrightarrow>
     map fst (filter (\<lambda>(i, row). flagged ''Montant'' thr [10, 10, 10, 10, 1000] row)
       (rows example_amounts))
     = (if thr < 2 then [4] else [])"
  by (simp add: flagged_def example_mean example_stddev example_amounts_column(1) series_at_def)

lemma detect_anomalies_example:
  assumes "1 / 2 \<le> thr"
  shows "fst (detect_anomalies double_library [example_amounts] 0 ''Montant'' thr) = Inr 3"
    and "index (snd (detect_anomalies double_library [example_amounts] 0 ''Montant'' thr) ! 3)
           = (if thr < 2 then [4] else [])"
proof -
  have three: "length [example_amounts] + 2 = 3" by simp
  note f = detect_anomalies_finite [of "''Montant''" "[example_amounts]" 0 double_library thr,
      unfolded nth_Cons_0 three, OF example_amounts_column(3,4,5) example_computes_exactly]
  show "fst (detect_anomalies double_library [example_amounts] 0 ''Montant'' thr) = Inr 3"
    by (rule f(1))
  have "index (snd (detect_anomalies double_library [example_amounts] 0 ''Montant'' thr) ! 3)
          = map fst (filter (\<lambda>(i, row). flagged ''Montant'' thr [10, 10, 10, 10, 1000] row)
                 (rows example_amounts))"
    unfolding index_def f(2) example_amounts_column(2)
    by (simp add: comp_def case_prod_unfold)
  then show "index (snd (detect_anomalies double_library [example_amounts] 0 ''Montant'' thr) ! 3)
           = (if thr < 2 then [4] else [])"
    by (simp only: example_flagged [OF assms])
qed

subsection \<open>Three amounts of one tenth\<close>

text \<open>
  The double nearest to \<open>1 / 10\<close> is \<open>tenth\<close>. The sum of three of them is rounded, at a
  tie, to \<open>5404319552844596 / 2 ^ 54\<close>, and its third to \<open>7205759403792795 / 2 ^ 56\<close>,
  which is the computed mean, one unit in the last place above \<open>tenth\<close>. The computed
  deviations are \<open>1 / 2 ^ 56\<close>, and so is the computed standard deviation, where the
  population standard deviation of three equal amounts is zero; the z-scores are \<open>- 1\<close>.
\<close>

lemma tenth_exact:
  "round_double tenth = Fin tenth"
  "round_double (tenth + tenth) = Fin (tenth + tenth)"
  unfolding tenth_def
  by (rule round_double_scaled [of _ 55]; simp)+

lemma tenth_sum3:
  "round_double (tenth + tenth + tenth) = Fin (5404319552844596 / 2 ^ 54)"
proof -
  have "round_double (tenth + tenth + tenth) =
           (if 2 ^ 1024 \<le> \<bar>of_int (round_half_even ((tenth + tenth + tenth) / 2 powi (- 54))) * (2::real) powi (- 54)\<bar>
              then inf_of_sign (sgn (tenth + tenth + tenth))
            else Fin (of_int (round_half_even ((tenth + tenth + tenth) / 2 powi (- 54))) * 2 powi (- 54)))"
    by (rule round_double_normal) (simp_all add: tenth_def power_int_neg_numeral)
  moreover have "round_half_even ((tenth + tenth + tenth) / 2 powi (- 54)) = 5404319552844596"
    by (simp add: tenth_def power_int_neg_numeral round_half_even_def)
  ultimately show ?thesis by (simp add: power_int_neg_numeral)
qed

lemma tenth_mean:
  "round_double (5404319552844596 / 2 ^ 54 / 3) = Fin (7205759403792795 / 2 ^ 56)"
proof -
  define x :: real where "x = 5404319552844596 / 2 ^ 54 / 3"
  have "round_double x =
           (if 2 ^ 1024 \<le> \<bar>of_int (round_half_even (x / 2 powi (- 56))) * (2::real) powi (- 56)\<bar>
              then inf_of_sign (sgn x)
            else Fin (of_int (round_half_even (x / 2 powi (- 56))) * 2 powi (- 56)))"
    by (rule round_double_normal) (simp_all add: x_def power_int_neg_numeral)
  moreover have "round_half_even (x / 2 powi (- 56)) = 7205759403792795"
    by (simp add: x_def power_int_neg_numeral round_half_even_def)
  ultimately have "round_double x = Fin (7205759403792795 / 2 ^ 56)"
    by (simp add: power_int_neg_numeral)
  then show ?thesis unfolding x_def .
qed

lemma tenth_column_mean:
  "sequential_mean round_double [Fin tenth, Fin tenth, Fin tenth] = Fin (7205759403792795 / 2 ^ 56)"
proof -
  have f: "fsum round_double [Fin tenth, Fin tenth, Fin tenth] = Fin (5404319552844596 / 2 ^ 54)"
    by (simp only: fsum_def foldl.simps fadd.simps add_0 tenth_exact tenth_sum3)
  have v: "filter (\<lambda>x. x \<noteq> NaN) [Fin tenth, Fin tenth, Fin tenth] = [Fin tenth, Fin tenth, Fin tenth]"
    by simp
  have l: "real (length [Fin tenth, Fin tenth, Fin tenth]) = 3" by simp
  have z: "(3::real) \<noteq> 0" by simp
  show ?thesis
    unfolding sequential_mean_def Let_def v f l
    by (simp only: fdiv.simps z if_False tenth_mean)
qed

lemma tenth_deviation: "7205759403792795 / 2 ^ 56 - tenth = 1 / 2 ^ 56"
  by (simp add: tenth_def)

lemma round_double_small:
  "round_double (1 / 2 ^ 56) = Fin (1 / 2 ^ 56)"
  "round_double (- (1 / 2 ^ 56)) = Fin (- (1 / 2 ^ 56))"
  "round_double (1 / 2 ^ 112) = Fin (1 / 2 ^ 112)"
  "round_double (2 / 2 ^ 112) = Fin (2 / 2 ^ 112)"
  "round_double (3 / 2 ^ 112) = Fin (3 / 2 ^ 112)"
  "round_double (- 1) = Fin (- 1)"
     apply (rule round_double_scaled [of _ 56]; simp)
    apply (rule round_double_scaled [of _ 56]; simp)
    apply (rule round_double_scaled [of _ 112]; simp)
    apply (rule round_double_scaled [of _ 112]; simp)
   apply (rule round_double_scaled [of _ 112]; simp)
  apply (rule round_double_int; simp)
  done

lemma sqrt_small: "sqrt (1 / 2 ^ 112) = 1 / 2 ^ 56"
  by (rule real_sqrt_unique) (simp_all add: power2_eq_square)

lemma tenth_column_std:
  "sequential_std0 round_double [Fin tenth, Fin tenth, Fin tenth] = Fin (1 / 2 ^ 56)"
proof -
  have v: "filter (\<lambda>x. x \<noteq> NaN) [Fin tenth, Fin tenth, Fin tenth] = [Fin tenth, Fin tenth, Fin tenth]"
    by simp
  have l: "real (length [Fin tenth, Fin tenth, Fin tenth]) = 3" by simp
  have d: "fsub round_double (Fin (7205759403792795 / 2 ^ 56)) (Fin tenth) = Fin (1 / 2 ^ 56)"
    unfolding fsub_def fneg.simps fadd.simps
    by (simp only: tenth_deviation round_double_small flip: diff_conv_add_uminus)
  have q: "fmul round_double (Fin (1 / 2 ^ 56)) (Fin (1 / 2 ^ 56)) = Fin (1 / 2 ^ 112)"
  proof -
    have "(1 / 2 ^ 56) * (1 / 2 ^ 56) = (1 / 2 ^ 112 :: real)" by simp
    then show ?thesis by (simp only: fmul.simps round_double_small)
  qed
  have s: "fsum round_double [Fin (1 / 2 ^ 112), Fin (1 / 2 ^ 112), Fin (1 / 2 ^ 112)] = Fin (3 / 2 ^ 112)"
  proof -
    have a: "0 + 1 / 2 ^ 112 = (1 / 2 ^ 112 :: real)"
            "1 / 2 ^ 112 + 1 / 2 ^ 112 = (2 / 2 ^ 112 :: real)"
            "2 / 2 ^ 112 + 1 / 2 ^ 112 = (3 / 2 ^ 112 :: real)"
      by simp_all
    show ?thesis by (simp only: fsum_def foldl.simps fadd.simps a round_double_small)
  qed
  have z: "(3::real) \<noteq> 0" by simp
  have t: "3 / 2 ^ 112 / 3 = (1 / 2 ^ 112 :: real)" by simp
  have n: "\<not> (1 / 2 ^ 112 :: real) < 0" by simp
  show ?thesis
    unfolding sequential_std0_def Let_def v l tenth_column_mean list.map d q s
    by (simp only: fdiv.simps z if_False t round_double_small fsqrt.simps n sqrt_small)
qed

lemma tenth_zscore:
  "zscore_of double_library [Fin tenth, Fin tenth, Fin tenth] (Fin tenth) = Fin (- 1)"
proof -
  have a: "tenth + - (7205759403792795 / 2 ^ 56) = - (1 / 2 ^ 56)" by (simp add: tenth_def)
  have b: "- (1 / 2 ^ 56) / (1 / 2 ^ 56) = (- 1 :: real)" by simp
  have z: "(1 / 2 ^ 56 :: real) \<noteq> 0" by simp
  have l: "lib_round double_library = round_double"
          "lib_mean double_library = sequential_mean round_double"
          "lib_std0 double_library = sequential_std0 round_double"
    by (simp_all add: double_library_def)
  show ?thesis
    unfolding zscore_of_def l tenth_column_mean tenth_column_std
      fsub_def fneg.simps fadd.simps a round_double_small fdiv.simps
    by (simp only: z if_False b round_double_small)
qed

lemma example_tenths_column:
  "rows example_tenths =
     [(0, [(''Montant'', Num (Fin tenth))]), (1, [(''Montant'', Num (Fin tenth))]),
      (2, [(''Montant'', Num (Fin tenth))])]"
  "finite_values (column_values example_tenths ''Montant'') = [tenth, tenth, tenth]"
  "''Montant'' \<in> set (columns ([example_tenths] ! 0))"
  "\<not> list_all isna (column_values ([example_tenths] ! 0) ''Montant'')"
  "as_floats (column_values ([example_tenths] ! 0) ''Montant'') = Inr [Fin tenth, Fin tenth, Fin tenth]"
  by (simp_all add: example_tenths_def amounts_frame_def column_values_def series_at_def
        enumerate_eq_zip upt_rec)

lemma tenths_stddev: "population_stddev [tenth, tenth, tenth] = 0"
  by (simp add: population_stddev_def population_mean_def)

lemma detect_anomalies_tenths:
  "fst (detect_anomalies double_library [example_tenths] 0 ''Montant'' (1 / 2)) = Inr 3"
  "index (snd (detect_anomalies double_library [example_tenths] 0 ''Montant'' (1 / 2)) ! 3)
     = [0, 1, 2]"
proof -
  have three: "length [example_tenths] + 2 = 3" by simp
  note f = detect_anomalies_result [of "''Montant''" "[example_tenths]" 0 _ double_library "1 / 2",
      OF example_tenths_column(3,4,5), unfolded three nth_Cons_0]
  show "fst (detect_anomalies double_library [example_tenths] 0 ''Montant'' (1 / 2)) = Inr 3"
    by (rule f(1))
  show "index (snd (detect_anomalies double_library [example_tenths] 0 ''Montant'' (1 / 2)) ! 3)
     = [0, 1, 2]"
    unfolding index_def f(4) example_tenths_column(1)
    by (simp add: series_at_def float_of_def tenth_zscore)
qed

subsection \<open>The claims on anomaly detection\<close>

lemma delete_absent: "k \<notin> set (map fst al) \<Longrightarrow> AList.delete k al = al"
  by (induction al) auto

lemma degenerate_examples:
  "''Montant'' \<notin> set (columns ([example_no_amount] ! 0))"
  "list_all isna (column_values ([example_null_amounts] ! 0) ''Montant'')"
  "''Montant'' \<in> set (columns ([example_equal_amounts] ! 0))"
  "\<not> list_all isna (column_values ([example_equal_amounts] ! 0) ''Montant'')"
  "list_all finite_or_null (column_values ([example_equal_amounts] ! 0) ''Montant'')"
  "finite_values (column_values ([example_equal_amounts] ! 0) ''Montant'') = [5, 5, 5]"
  "map float_of (column_values ([example_equal_amounts] ! 0) ''Montant'')
     = [Fin 5, Fin 5, NaN, Fin 5]"
  "column_values ([example_equal_amounts] ! 0) ''Montant'' = [Num (Fin 5), Num (Fin 5), NA, Num (Fin 5)]"
  by (simp_all add: example_no_amount_def example_null_amounts_def example_equal_amounts_def
       amounts_frame_def column_values_def series_at_def finite_or_null_def float_of_def
       enumerate_eq_zip upt_rec)

lemma equal_amounts_stddev: "population_stddev [5, 5, 5] = 0"
  by (simp add: population_stddev_def population_mean_def)

lemma equal_amounts_mean: "population_mean [5, 5, 5] = 5"
  by (simp add: population_mean_def)

lemma equal_amounts_computes_exactly:
  "computes_exactly double_library (column_values ([example_equal_amounts] ! 0) ''Montant'')"
  unfolding computes_exactly_def degenerate_examples(6,7) equal_amounts_mean equal_amounts_stddev
  by (simp add: double_library_def sequential_mean_def sequential_std0_def fsum_def fsub_def
        round_double_int)




text \<open>
  C8, as the claim states it, fails for three amounts of one tenth: their population
  standard deviation is zero, but the mean that the library of doubles computes is
  one unit in the last place above the amounts, the computed standard deviation is
  \<open>1 / 2 ^ 56\<close> and every z-score is \<open>- 1\<close>, so that at the threshold 0.5 the three
  rows are flagged.
\<close>

theorem detect_anomalies_equal_tenths_counterexample:
  "population_stddev (finite_values (column_values example_tenths ''Montant'')) = 0
   \<and> lib_std0 double_library [Fin tenth, Fin tenth, Fin tenth] = Fin (1 / 2 ^ 56)
   \<and> zscore_of double_library [Fin tenth, Fin tenth, Fin tenth] (Fin tenth) = Fin (- 1)
   \<and> fst (detect_anomalies double_library [example_tenths] 0 ''Montant'' (1 / 2)) = Inr 3
   \<and> index (snd (detect_anomalies double_library [example_tenths] 0 ''Montant'' (1 / 2)) ! 3)
       = [0, 1, 2]"
proof -
  have s: "lib_std0 double_library [Fin tenth, Fin tenth, Fin tenth] = Fin (1 / 2 ^ 56)"
    by (simp only: double_library_def numeric_library.simps tenth_column_std)
  have p: "population_stddev (finite_values (column_values example_tenths ''Montant'')) = 0"
    by (simp only: example_tenths_column(2) tenths_stddev)
  from p s tenth_zscore detect_anomalies_tenths show ?thesis by (simp only: simp_thms)
qed

text \<open>
  C8, amended. On a frame whose amount column is missing or all null
  \<open>detect_anomalies\<close> raises nothing and returns the empty frame. The division by the
  standard deviation is not guarded: when the population standard deviation of a
  column of finite numbers and nulls is zero and the library computes without
  rounding error, every z-score is the NaN of \<open>0 / 0\<close>, which compares false with
  every threshold, so that no row is flagged and nothing is raised.
\<close>

theorem detect_anomalies_degenerate_input:
  "(col \<notin> set (columns (h ! r)) \<or> list_all isna (column_values (h ! r) col) \<longrightarrow>
      detect_anomalies L h r col thr = (Inr (length h), h @ [empty_frame]))
   \<and> (col \<in> set (columns (h ! r)) \<and> \<not> list_all isna (column_values (h ! r) col)
        \<and> list_all finite_or_null (column_values (h ! r) col)
        \<and> computes_exactly L (column_values (h ! r) col)
        \<and> population_stddev (finite_values (column_values (h ! r) col)) = 0 \<longrightarrow>
      fst (detect_anomalies L h r col thr) = Inr (length h + 2)
      \<and> column_values (snd (detect_anomalies L h r col thr) ! length h) ''zscore''
          = map (\<lambda>c. Num NaN) (column_values (h ! r) col)
      \<and> rows (snd (detect_anomalies L h r col thr) ! (length h + 2)) = [])"
proof (intro conjI impI)
  assume "col \<notin> set (columns (h ! r)) \<or> list_all isna (column_values (h ! r) col)"
  then show "detect_anomalies L h r col thr = (Inr (length h), h @ [empty_frame])"
    by (rule detect_anomalies_degenerate)
next
  assume a: "col \<in> set (columns (h ! r)) \<and> \<not> list_all isna (column_values (h ! r) col)
        \<and> list_all finite_or_null (column_values (h ! r) col)
        \<and> computes_exactly L (column_values (h ! r) col)
        \<and> population_stddev (finite_values (column_values (h ! r) col)) = 0"
  then have p: "col \<in> set (columns (h ! r))" and n: "\<not> list_all isna (column_values (h ! r) col)"
    and f: "list_all finite_or_null (column_values (h ! r) col)"
    and e: "computes_exactly L (column_values (h ! r) col)"
    and z: "population_stddev (finite_values (column_values (h ! r) col)) = 0"
    by blast+
  show "fst (detect_anomalies L h r col thr) = Inr (length h + 2)"
    by (rule detect_anomalies_finite(1) [OF p n f e])
  show "column_values (snd (detect_anomalies L h r col thr) ! length h) ''zscore''
          = map (\<lambda>c. Num NaN) (column_values (h ! r) col)"
    by (rule detect_anomalies_zero_deviation(1) [OF p n f e z])
  show "rows (snd (detect_anomalies L h r col thr) ! (length h + 2)) = []"
    by (rule detect_anomalies_zero_deviation(2) [OF p n f e z])
qed

theorem detect_anomalies_degenerate_input_witness:
  "detect_anomalies double_library [example_no_amount] 0 ''Montant'' 3
     = (Inr 1, [example_no_amount, empty_frame])
   \<and> detect_anomalies double_library [example_null_amounts] 0 ''Montant'' 3
     = (Inr 1, [example_null_amounts, empty_frame])
   \<and> computes_exactly double_library (column_values example_equal_amounts ''Montant'')
   \<and> population_stddev (finite_values (column_values example_equal_amounts ''Montant'')) = 0
   \<and> fst (detect_anomalies double_library [example_equal_amounts] 0 ''Montant'' 3) = Inr 3
   \<and> column_values (snd (detect_anomalies double_library [example_equal_amounts] 0 ''Montant'' 3) ! 1)
        ''zscore'' = [Num NaN, Num NaN, Num NaN, Num NaN]
   \<and> rows (snd (detect_anomalies double_library [example_equal_amounts] 0 ''Montant'' 3) ! 3) = []"
proof -
  have sd: "population_stddev (finite_values (column_values ([example_equal_amounts] ! 0) ''Montant'')) = 0"
    by (simp only: degenerate_examples(6) equal_amounts_stddev)
  note ce = equal_amounts_computes_exactly
  have a: "detect_anomalies double_library [example_no_amount] 0 ''Montant'' 3
             = (Inr 1, [example_no_amount, empty_frame])"
    using detect_anomalies_degenerate_input [of "''Montant''" "[example_no_amount]" 0 double_library 3]
      degenerate_examples(1) by simp
  have b: "detect_anomalies double_library [example_null_amounts] 0 ''Montant'' 3
             = (Inr 1, [example_null_amounts, empty_frame])"
    using detect_anomalies_degenerate_input [of "''Montant''" "[example_null_amounts]" 0 double_library 3]
      degenerate_examples(2) by simp
  have c: "fst (detect_anomalies double_library [example_equal_amounts] 0 ''Montant'' 3) = Inr 3
      \<and> column_values (snd (detect_anomalies double_library [example_equal_amounts] 0 ''Montant'' 3) ! 1)
           ''zscore'' = [Num NaN, Num NaN, Num NaN, Num NaN]
      \<and> rows (snd (detect_anomalies double_library [example_equal_amounts] 0 ''Montant'' 3) ! 3) = []"
    using detect_anomalies_degenerate_input [of "''Montant''" "[example_equal_amounts]" 0 double_library 3]
      degenerate_examples(3,4,5) ce sd
    by (simp add: numeral_3_eq_3 degenerate_examples(8) [unfolded nth_Cons_0])
  from a b c sd ce show ?thesis by simp
qed

text \<open>
  C10, as the claim states it, fails on the degenerate path: for a frame without
  amount column the result is a fresh empty frame, which has no column at all.
\<close>

theorem detect_anomalies_columns_counterexample:
  "fst (detect_anomalies double_library [example_no_amount] 0 ''Montant'' 3) = Inr 1
   \<and> columns (snd (detect_anomalies double_library [example_no_amount] 0 ''Montant'' 3) ! 1) = []
   \<and> columns example_no_amount = [''Libelle'']"
proof -
  have "''Montant'' \<notin> set (columns ([example_no_amount] ! 0))"
    by (simp add: example_no_amount_def)
  then have "detect_anomalies double_library [example_no_amount] 0 ''Montant'' 3 = (Inr 1, [example_no_amount, empty_frame])"
    using detect_anomalies_degenerate [of "''Montant''" "[example_no_amount]" 0 double_library 3] by simp
  then show ?thesis
    by (simp add: empty_frame_def example_no_amount_def)
qed

text \<open>
  C10, amended. \<open>detect_anomalies\<close> changes no frame of the store, so the input is
  left as it was; every row of the result is a row of the input when no row carries
  the label \<open>zscore\<close>; and the result has exactly the columns of the input when the
  amount column is present with a non-null value and the input has no column
  \<open>zscore\<close>.
\<close>

theorem detect_anomalies_keeps_input:
  assumes r: "r < length h"
  shows "snd (detect_anomalies L h r col thr) ! r = h ! r
       \<and> take (length h) (snd (detect_anomalies L h r col thr)) = h
       \<and> (\<forall>res. fst (detect_anomalies L h r col thr) = Inr res
             \<and> (\<forall>ir\<in>set (rows (h ! r)). ''zscore'' \<notin> set (series_index (snd ir)))
             \<longrightarrow> set (rows (snd (detect_anomalies L h r col thr) ! res)) \<subseteq> set (rows (h ! r)))
       \<and> (\<forall>res. fst (detect_anomalies L h r col thr) = Inr res
             \<and> col \<in> set (columns (h ! r)) \<and> \<not> list_all isna (column_values (h ! r) col)
             \<and> ''zscore'' \<notin> set (columns (h ! r))
             \<longrightarrow> columns (snd (detect_anomalies L h r col thr) ! res) = columns (h ! r))"
proof -
  let ?d = "detect_anomalies L h r col thr"
  have tk: "take (length h) (snd ?d) = h"
   and rows_sub: "\<And>res. fst ?d = Inr res \<Longrightarrow>
          \<forall>ir\<in>set (rows (h ! r)). ''zscore'' \<notin> set (series_index (snd ir)) \<Longrightarrow>
          set (rows (snd ?d ! res)) \<subseteq> set (rows (h ! r))"
   and cols_eq: "\<And>res. fst ?d = Inr res \<Longrightarrow> col \<in> set (columns (h ! r)) \<Longrightarrow>
          \<not> list_all isna (column_values (h ! r) col) \<Longrightarrow> ''zscore'' \<notin> set (columns (h ! r)) \<Longrightarrow>
          columns (snd ?d ! res) = columns (h ! r)"
  proof -
    consider (deg) "col \<notin> set (columns (h ! r)) \<or> list_all isna (column_values (h ! r) col)"
      | (err) e where "col \<in> set (columns (h ! r))" "\<not> list_all isna (column_values (h ! r) col)"
          "as_floats (column_values (h ! r) col) = Inl e"
      | (sco) xs where "col \<in> set (columns (h ! r))" "\<not> list_all isna (column_values (h ! r) col)"
          "as_floats (column_values (h ! r) col) = Inr xs"
      by (cases "as_floats (column_values (h ! r) col)") blast+
    then have "take (length h) (snd ?d) = h
      \<and> (\<forall>res. fst ?d = Inr res \<longrightarrow>
          (\<forall>ir\<in>set (rows (h ! r)). ''zscore'' \<notin> set (series_index (snd ir))) \<longrightarrow>
          set (rows (snd ?d ! res)) \<subseteq> set (rows (h ! r)))
      \<and> (\<forall>res. fst ?d = Inr res \<longrightarrow> col \<in> set (columns (h ! r)) \<longrightarrow>
          \<not> list_all isna (column_values (h ! r) col) \<longrightarrow> ''zscore'' \<notin> set (columns (h ! r)) \<longrightarrow>
          columns (snd ?d ! res) = columns (h ! r))"
    proof cases
      case deg
      show ?thesis
        unfolding detect_anomalies_degenerate [OF deg]
        using deg by (auto simp: empty_frame_def)
    next
      case err
      show ?thesis
        unfolding detect_anomalies_error [OF err] by simp
    next
      case sco
      note res = detect_anomalies_result [OF sco, of L thr]
      have sub: "set (rows (snd ?d ! (length h + 2))) \<subseteq> set (rows (h ! r))"
        if nz: "\<forall>ir\<in>set (rows (h ! r)). ''zscore'' \<notin> set (series_index (snd ir))"
      proof -
        have "(case ir of (i, row) \<Rightarrow> (i, AList.delete ''zscore'' row)) = ir"
          if "ir \<in> set (rows (h ! r))" for ir
          using nz that by (cases ir) (auto simp: series_index_def delete_absent)
        then show ?thesis
          unfolding res(4) by (auto simp: image_iff)
      qed
      have col: "columns (snd ?d ! (length h + 2)) = columns (h ! r)"
        if "''zscore'' \<notin> set (columns (h ! r))"
        unfolding res(3) using that by simp
      show ?thesis
        using res(1,2) sub col by auto
    qed
    then show "take (length h) (snd ?d) = h"
      and "\<And>res. fst ?d = Inr res \<Longrightarrow>
          \<forall>ir\<in>set (rows (h ! r)). ''zscore'' \<notin> set (series_index (snd ir)) \<Longrightarrow>
          set (rows (snd ?d ! res)) \<subseteq> set (rows (h ! r))"
      and "\<And>res. fst ?d = Inr res \<Longrightarrow> col \<in> set (columns (h ! r)) \<Longrightarrow>
          \<not> list_all isna (column_values (h ! r) col) \<Longrightarrow> ''zscore'' \<notin> set (columns (h ! r)) \<Longrightarrow>
          columns (snd ?d ! res) = columns (h ! r)"
      by blast+
  qed
  from tk r have "snd ?d ! r = h ! r"
    by (metis nth_take)
  with tk rows_sub cols_eq show ?thesis by blast
qed


theorem detect_anomalies_keeps_input_witness:
  "snd (detect_anomalies double_library [example_amounts] 0 ''Montant'' (3 / 2)) ! 0 = example_amounts
   \<and> fst (detect_anomalies double_library [example_amounts] 0 ''Montant'' (3 / 2)) = Inr 3
   \<and> set (rows (snd (detect_anomalies double_library [example_amounts] 0 ''Montant'' (3 / 2)) ! 3))
        \<subseteq> set (rows example_amounts)
   \<and> columns (snd (detect_anomalies double_library [example_amounts] 0 ''Montant'' (3 / 2)) ! 3) = [''Montant'']"
proof -
  have r: "0 < length [example_amounts]" by simp
  have f: "fst (detect_anomalies double_library [example_amounts] 0 ''Montant'' (3 / 2)) = Inr 3"
    by (rule detect_anomalies_example(1)) simp
  have nz: "\<forall>ir\<in>set (rows ([example_amounts] ! 0)). ''zscore'' \<notin> set (series_index (snd ir))"
    by (simp add: example_amounts_column(1) series_index_def)
  have c: "''Montant'' \<in> set (columns ([example_amounts] ! 0))"
          "\<not> list_all isna (column_values ([example_amounts] ! 0) ''Montant'')"
          "''zscore'' \<notin> set (columns ([example_amounts] ! 0))"
          "columns ([example_amounts] ! 0) = [''Montant'']"
    using example_amounts_column(3,4) by (simp_all add: example_amounts_def amounts_frame_def)
  from detect_anomalies_keeps_input [OF r, of double_library "''Montant''" "3 / 2"] f nz c
  show ?thesis by (simp only: nth_Cons_0) blast
qed

section \<open>Validation of a frame\<close>

lemma validate_data_empty:
  assumes "df_empty (h ! r)"
  shows "validate_data U fmt rules h r = ((length h, length h + 1), h @ [empty_frame, empty_frame])"
  using assms by (simp add: validate_data_def alloc_def)

lemma validate_data_nonempty:
  assumes r: "r < length h" and ne: "\<not> df_empty (h ! r)"
  shows "validate_data U fmt rules h r =
           ((length h, length h + 1),
            mask_sensitive_columns fmt sensitive_cols (length h) (length h + 1)
              (h[r := checked_frame U fmt rules (h ! r)]
                 @ [drop_column ''is_valid'' (select_rows (\<lambda>row. series_at row ''is_valid'' = Bool True) (checked_frame U fmt rules (h ! r))),
                    drop_column ''is_valid''
                      (select_rows (\<lambda>row. series_at row ''is_valid'' \<noteq> Bool True) (checked_frame U fmt rules (h ! r)))]))"
  using assms
  by (simp add: validate_data_def alloc_def Let_def checked_frame_def
        nth_append list_update_append)


lemma map_fst_fst_zip:
  assumes "length xs \<le> length ys"
  shows "map (\<lambda>x. fst (fst x)) (zip xs ys) = map fst xs"
proof -
  have "map (\<lambda>x. fst (fst x)) (zip xs ys) = map fst (map fst (zip xs ys))"
    by (simp add: comp_def)
  also have "map fst (zip xs ys) = xs"
    using assms by (simp add: map_fst_zip_take min_def)
  finally show ?thesis .
qed

lemma index_set_column:
  "length (rows df) \<le> length vals \<Longrightarrow> index (set_column col vals df) = index df"
  by (simp add: index_def set_column_def comp_def case_prod_unfold map_fst_fst_zip)

lemma index_set_scalar: "index (set_scalar col v df) = index df"
  by (simp add: set_scalar_def index_set_column)

lemma index_add_missing_columns: "index (add_missing_columns cols df) = index df"
  by (induction cols arbitrary: df) (simp_all add: index_set_scalar)

lemma index_drop_column: "index (drop_column col df) = index df"
  by (simp add: index_def drop_column_def comp_def case_prod_unfold)

lemma index_mask_column: "index (mask_column fmt col df) = index df"
  by (simp add: mask_column_def column_values_def index_set_column)

lemma index_list_update:
  "index x = index (h ! k) \<Longrightarrow> index (h[k := x] ! j) = index (h ! j)"
  by (cases "k < length h") (auto simp: nth_list_update list_update_beyond)

lemma index_mask_sensitive_columns:
  "index (mask_sensitive_columns fmt cols v i h ! j) = index (h ! j)"
proof (induction cols arbitrary: h)
  case Nil
  show ?case by simp
next
  case (Cons col cols)
  show ?case
    by (simp add: Let_def Cons.IH index_list_update index_mask_column)
qed

lemma checked_frame_rows:
  "rows (checked_frame U fmt rules df)
     = map (\<lambda>ir. (fst ir, AList.update ''is_valid'' (Bool (valid_at U fmt rules df ir)) (snd ir)))
         (rows (add_missing_columns expected_cols df))"
proof -
  let ?df1 = "add_missing_columns expected_cols df"
  have vals: "map Bool (map (\<lambda>(idx, row). row_validity U fmt rules row) (iterrows ?df1))
                = map (\<lambda>ir. Bool (valid_at U fmt rules df ir)) (rows ?df1)"
    by (simp add: iterrows_def valid_at_def comp_def case_prod_unfold)
  show ?thesis
    unfolding checked_frame_def Let_def vals
    by (simp add: set_column_def zip_map_self comp_def case_prod_unfold)
qed

lemma checked_frame_valid_index:
  "index (drop_column ''is_valid''
            (select_rows (\<lambda>row. series_at row ''is_valid'' = Bool True) (checked_frame U fmt rules df)))
     = map fst (filter (valid_at U fmt rules df) (rows (add_missing_columns expected_cols df)))"
  unfolding index_drop_column
  by (simp add: index_def select_rows_def checked_frame_rows filter_map comp_def
        case_prod_unfold series_at_update)

lemma checked_frame_invalid_index:
  "index (drop_column ''is_valid''
            (select_rows (\<lambda>row. series_at row ''is_valid'' \<noteq> Bool True) (checked_frame U fmt rules df)))
     = map fst (filter (\<lambda>ir. \<not> valid_at U fmt rules df ir) (rows (add_missing_columns expected_cols df)))"
  unfolding index_drop_column
  by (simp add: index_def select_rows_def checked_frame_rows filter_map comp_def
        case_prod_unfold series_at_update)

lemma validate_data_indices:
  assumes r: "r < length h" and ne: "\<not> df_empty (h ! r)"
  shows "fst (validate_data U fmt rules h r) = (length h, length h + 1)"
    and "index (snd (validate_data U fmt rules h r) ! length h)
           = map fst (filter (valid_at U fmt rules (h ! r))
                        (rows (add_missing_columns expected_cols (h ! r))))"
    and "index (snd (validate_data U fmt rules h r) ! (length h + 1))
           = map fst (filter (\<lambda>ir. \<not> valid_at U fmt rules (h ! r) ir)
                        (rows (add_missing_columns expected_cols (h ! r))))"
proof -
  note v = validate_data_nonempty [OF r ne, of U fmt rules]
  show "fst (validate_data U fmt rules h r) = (length h, length h + 1)"
    by (simp add: v)
  show "index (snd (validate_data U fmt rules h r) ! length h)
           = map fst (filter (valid_at U fmt rules (h ! r))
                        (rows (add_missing_columns expected_cols (h ! r))))"
    unfolding v snd_conv index_mask_sensitive_columns
    by (simp add: nth_append checked_frame_valid_index)
  show "index (snd (validate_data U fmt rules h r) ! (length h + 1))
           = map fst (filter (\<lambda>ir. \<not> valid_at U fmt rules (h ! r) ir)
                        (rows (add_missing_columns expected_cols (h ! r))))"
    unfolding v snd_conv index_mask_sensitive_columns
    by (simp add: nth_append checked_frame_invalid_index)
qed

lemma partition_by_predicate:
  fixes xs :: "(nat \<times> 'a) list"
  shows "length (map fst (filter P xs)) + length (map fst (filter (\<lambda>x. \<not> P x) xs)) = length xs"
    and "mset (map fst (filter P xs)) + mset (map fst (filter (\<lambda>x. \<not> P x) xs)) = mset (map fst xs)"
    and "distinct (map fst xs) \<Longrightarrow>
           set (map fst (filter P xs)) \<inter> set (map fst (filter (\<lambda>x. \<not> P x) xs)) = {}"
proof -
  show "length (map fst (filter P xs)) + length (map fst (filter (\<lambda>x. \<not> P x) xs)) = length xs"
    by (simp add: sum_length_filter_compl)
  show "mset (map fst (filter P xs)) + mset (map fst (filter (\<lambda>x. \<not> P x) xs)) = mset (map fst xs)"
    by (induction xs) auto
  show "set (map fst (filter P xs)) \<inter> set (map fst (filter (\<lambda>x. \<not> P x) xs)) = {}"
    if "distinct (map fst xs)"
  proof -
    from that have inj: "inj_on fst (set xs)" by (simp add: distinct_map)
    show ?thesis
    proof (rule ccontr)
      assume "set (map fst (filter P xs)) \<inter> set (map fst (filter (\<lambda>x. \<not> P x) xs)) \<noteq> {}"
      then obtain x y where "x \<in> set xs" "P x" "y \<in> set xs" "\<not> P y" "fst x = fst y"
        by auto
      with inj have "x = y" by (auto dest: inj_onD)
      with \<open>P x\<close> \<open>\<not> P y\<close> show False by simp
    qed
  qed
qed


lemma example_transactions_complete:
  "add_missing_columns expected_cols example_transactions = example_transactions"
  by (simp add: expected_cols_def example_transactions_def)

lemma example_row_series:
  "map (\<lambda>c. (c, series_at (example_row a) c)) (columns example_transactions) = example_row a"
  by (simp add: example_transactions_def example_row_def series_at_def)

lemma example_row_valid:
  "validate_transaction latin1_db (\<lambda>c. []) (example_row (Fin 1000)) example_rules = (Inr True, [DbgValid])"
  by (simp add: validate_transaction_def example_row_def example_rules_def required_cols_def
        series_index_def series_at_def max_amount_of_def allowed_currencies_of_def Let_def)
     code_simp

lemma example_text_series:
  "map (\<lambda>c. (c, series_at example_row_text_amount c)) (columns example_transactions)
     = example_row_text_amount"
  by (simp add: example_transactions_def example_row_text_amount_def series_at_def)

lemma example_text_raises:
  "validate_transaction latin1_db (\<lambda>c. []) example_row_text_amount example_rules = (Inl TypeError, [])"
  by (simp add: validate_transaction_def example_row_text_amount_def example_rules_def required_cols_def
        series_index_def series_at_def max_amount_of_def allowed_currencies_of_def Let_def)

lemma example_validity:
  "valid_at latin1_db (\<lambda>c. []) example_rules example_transactions (i, example_row (Fin 1000))"
  "\<not> valid_at latin1_db (\<lambda>c. []) example_rules example_transactions (i, example_row (Fin 15000000))"
  "\<not> valid_at latin1_db (\<lambda>c. []) example_rules example_transactions (i, example_row_text_amount)"
  by (simp_all add: valid_at_def example_transactions_complete example_row_series
        row_validity_def example_row_valid example_row_evaluation(1)
        example_text_series example_text_raises)

lemma example_transactions_rows:
  "rows example_transactions =
     [(0, example_row (Fin 1000)), (1, example_row (Fin 15000000)), (2, example_row_text_amount)]"
  by (simp add: example_transactions_def)

lemma example_partition:
  "map fst (filter (valid_at latin1_db (\<lambda>c. []) example_rules example_transactions) (rows example_transactions)) = [0]"
  "map fst (filter (\<lambda>ir. \<not> valid_at latin1_db (\<lambda>c. []) example_rules example_transactions ir) (rows example_transactions)) = [1, 2]"
  by (simp_all add: example_validity example_transactions_rows)


text \<open>
  C6, as the claim states it, fails for a frame that has rows and no column:
  \<^verbatim>\<open>df.empty\<close> holds of it, the guard returns two empty frames, and the two rows are
  in neither output.
\<close>

theorem validate_data_no_columns_counterexample:
  "validate_data latin1_db (\<lambda>c. []) example_rules [example_no_columns] 0
     = ((1, 2), [example_no_columns, empty_frame, empty_frame])
   \<and> rows example_no_columns = [(0, []), (1, [])]
   \<and> rows empty_frame = []"
proof -
  have "df_empty ([example_no_columns] ! 0)"
    by (simp add: df_empty_def example_no_columns_def)
  from validate_data_empty [OF this, of latin1_db "\<lambda>c. []" example_rules]
  show ?thesis by (simp add: example_no_columns_def empty_frame_def)
qed


text \<open>
  C6, amended. For a frame with at least one column (or without rows), the two frames
  that \<open>validate_data\<close> returns partition the rows of the input: the row counts add
  up to the number of rows, the index labels of the two outputs together are those of
  the input, no label is in both when the input labels are distinct, and a row lands
  in the valid output when its validation returns \<open>True\<close> and in the invalid output
  otherwise, in particular when the validation raises.
\<close>

theorem validate_data_partition:
  assumes r: "r < length h"
      and wf: "columns (h ! r) \<noteq> [] \<or> rows (h ! r) = []"
  shows "length (rows (snd (validate_data U fmt rules h r) ! fst (fst (validate_data U fmt rules h r))))
           + length (rows (snd (validate_data U fmt rules h r) ! snd (fst (validate_data U fmt rules h r))))
           = length (rows (h ! r))
       \<and> mset (index (snd (validate_data U fmt rules h r) ! fst (fst (validate_data U fmt rules h r))))
           + mset (index (snd (validate_data U fmt rules h r) ! snd (fst (validate_data U fmt rules h r))))
           = mset (index (h ! r))
       \<and> (distinct (index (h ! r)) \<longrightarrow>
            set (index (snd (validate_data U fmt rules h r) ! fst (fst (validate_data U fmt rules h r))))
              \<inter> set (index (snd (validate_data U fmt rules h r) ! snd (fst (validate_data U fmt rules h r))))
              = {})
       \<and> (\<forall>(idx, row)\<in>set (iterrows (add_missing_columns expected_cols (h ! r))).
            (fst (validate_transaction U fmt row rules) = Inr True \<longrightarrow>
               idx \<in> set (index (snd (validate_data U fmt rules h r) ! fst (fst (validate_data U fmt rules h r)))))
            \<and> (fst (validate_transaction U fmt row rules) \<noteq> Inr True \<longrightarrow>
               idx \<in> set (index (snd (validate_data U fmt rules h r) ! snd (fst (validate_data U fmt rules h r))))))"
proof (cases "df_empty (h ! r)")
  case True
  with wf have e: "rows (h ! r) = []" by (auto simp: df_empty_def)
  then have "index (add_missing_columns expected_cols (h ! r)) = []"
    unfolding index_add_missing_columns by (simp add: index_def)
  then have "rows (add_missing_columns expected_cols (h ! r)) = []"
    by (simp add: index_def)
  then have it: "iterrows (add_missing_columns expected_cols (h ! r)) = []"
    by (simp add: iterrows_def)
  show ?thesis
    unfolding validate_data_empty [OF True] it
    by (simp add: e nth_append empty_frame_def index_def)
next
  case False
  let ?df1 = "add_missing_columns expected_cols (h ! r)"
  let ?P = "valid_at U fmt rules (h ! r)"
  let ?V = "snd (validate_data U fmt rules h r) ! fst (fst (validate_data U fmt rules h r))"
  let ?I = "snd (validate_data U fmt rules h r) ! snd (fst (validate_data U fmt rules h r))"
  note i = validate_data_indices [OF r False, of U fmt rules]
  have V: "index ?V = map fst (filter ?P (rows ?df1))"
    unfolding i(1) fst_conv by (rule i(2))
  have I: "index ?I = map fst (filter (\<lambda>ir. \<not> ?P ir) (rows ?df1))"
    unfolding i(1) fst_conv snd_conv by (rule i(3))
  have ix: "map fst (rows ?df1) = index (h ! r)"
    using index_add_missing_columns [of expected_cols "h ! r"] by (simp add: index_def)
  have len: "length (rows ?df1) = length (rows (h ! r))"
    using ix by (metis index_def length_map)
  have lv: "length (rows ?V) = length (index ?V)" and li: "length (rows ?I) = length (index ?I)"
    by (simp_all add: index_def)
  have c1: "length (rows ?V) + length (rows ?I) = length (rows (h ! r))"
    unfolding lv li V I using partition_by_predicate(1) [of ?P "rows ?df1"] len by simp
  have c2: "mset (index ?V) + mset (index ?I) = mset (index (h ! r))"
    unfolding V I using partition_by_predicate(2) [of ?P "rows ?df1"] ix by simp
  have c3: "distinct (index (h ! r)) \<longrightarrow> set (index ?V) \<inter> set (index ?I) = {}"
    unfolding V I using partition_by_predicate(3) [of "rows ?df1" ?P] ix by simp
  have c4: "(fst (validate_transaction U fmt row rules) = Inr True \<longrightarrow> idx \<in> set (index ?V))
            \<and> (fst (validate_transaction U fmt row rules) \<noteq> Inr True \<longrightarrow> idx \<in> set (index ?I))"
    if "(idx, row) \<in> set (iterrows ?df1)" for idx row
  proof -
    from that obtain ir where ir: "ir \<in> set (rows ?df1)" "idx = fst ir"
        "row = map (\<lambda>c. (c, series_at (snd ir) c)) (columns ?df1)"
      by (auto simp: iterrows_def)
    have p: "?P ir = (fst (validate_transaction U fmt row rules) = Inr True)"
      by (auto simp: valid_at_def row_validity_def ir(3) split: sum.splits)
    have a: "idx \<in> set (map fst (filter ?P (rows ?df1)))" if "?P ir"
    proof -
      from ir(1) that have "ir \<in> set (filter ?P (rows ?df1))" by simp
      then have "fst ir \<in> fst ` set (filter ?P (rows ?df1))" by (rule imageI)
      then show ?thesis by (simp add: ir(2))
    qed
    have b: "idx \<in> set (map fst (filter (\<lambda>ir. \<not> ?P ir) (rows ?df1)))" if "\<not> ?P ir"
    proof -
      from ir(1) that have "ir \<in> set (filter (\<lambda>ir. \<not> ?P ir) (rows ?df1))" by simp
      then have "fst ir \<in> fst ` set (filter (\<lambda>ir. \<not> ?P ir) (rows ?df1))" by (rule imageI)
      then show ?thesis by (simp add: ir(2))
    qed
    show ?thesis
      unfolding V I using a b p by blast
  qed
  from c1 c2 c3 c4 show ?thesis by blast
qed

theorem validate_data_partition_witness:
  "fst (validate_data latin1_db (\<lambda>c. []) example_rules [example_transactions] 0) = (1, 2)
   \<and> index (snd (validate_data latin1_db (\<lambda>c. []) example_rules [example_transactions] 0) ! 1) = [0]
   \<and> index (snd (validate_data latin1_db (\<lambda>c. []) example_rules [example_transactions] 0) ! 2) = [1, 2]
   \<and> fst (validate_transaction latin1_db (\<lambda>c. []) example_row_text_amount example_rules) = Inl TypeError
   \<and> length (rows (snd (validate_data latin1_db (\<lambda>c. []) example_rules [example_transactions] 0) ! 1))
       + length (rows (snd (validate_data latin1_db (\<lambda>c. []) example_rules [example_transactions] 0) ! 2))
       = length (rows example_transactions)
   \<and> mset (index (snd (validate_data latin1_db (\<lambda>c. []) example_rules [example_transactions] 0) ! 1))
       + mset (index (snd (validate_data latin1_db (\<lambda>c. []) example_rules [example_transactions] 0) ! 2))
       = mset (index example_transactions)"
proof -
  have r: "0 < length [example_transactions]" by simp
  have ne: "\<not> df_empty ([example_transactions] ! 0)"
    by (simp add: df_empty_def example_transactions_def)
  have wf: "columns ([example_transactions] ! 0) \<noteq> [] \<or> rows ([example_transactions] ! 0) = []"
    by (simp add: example_transactions_def)
  note i = validate_data_indices [OF r ne, of latin1_db "\<lambda>c. []" example_rules,
      unfolded nth_Cons_0 example_transactions_complete example_partition]
  have f: "fst (validate_data latin1_db (\<lambda>c. []) example_rules [example_transactions] 0) = (1, 2)"
    using i(1) by simp
  have v: "index (snd (validate_data latin1_db (\<lambda>c. []) example_rules [example_transactions] 0) ! 1) = [0]"
    using i(2) by simp
  have n: "index (snd (validate_data latin1_db (\<lambda>c. []) example_rules [example_transactions] 0) ! 2) = [1, 2]"
    using i(3) by (simp add: numeral_2_eq_2)
  from validate_data_partition [OF r wf, of latin1_db "\<lambda>c. []" example_rules]
  have "length (rows (snd (validate_data latin1_db (\<lambda>c. []) example_rules [example_transactions] 0) ! 1))
       + length (rows (snd (validate_data latin1_db (\<lambda>c. []) example_rules [example_transactions] 0) ! 2))
       = length (rows example_transactions)
     \<and> mset (index (snd (validate_data latin1_db (\<lambda>c. []) example_rules [example_transactions] 0) ! 1))
       + mset (index (snd (validate_data latin1_db (\<lambda>c. []) example_rules [example_transactions] 0) ! 2))
       = mset (index example_transactions)"
    unfolding f fst_conv snd_conv nth_Cons_0 by blast
  with f v n example_text_raises show ?thesis by simp
qed


end
